theory Spec2Isabelle
  imports Complex_Main "HOL-Library.AList" "HOL-Library.Sublist" "HOL-Library.Product_Lexorder"
begin

section \<open>Configuration\<close>

text \<open>
  The analysis engine of \<^verbatim>\<open>src/analyze.ts\<close>. The counters of the accumulator only ever
  hold non-negative integers and are natural numbers; the weights, \<open>V\<close> and \<open>A\<close> are read
  as real numbers; the sphericity, where the code divides by a power, is a double with its
  range, its infinities and its NaN. A property that may be absent from a JavaScript
  object is an \<open>option\<close>.
\<close>

record Weights =
  privateMethod :: real
  internalCall :: real
  internalType :: real
  exportedSymbol :: real
  publicMethod :: real
  externalImport :: real
  outgoingCall :: real

text \<open>\<^verbatim>\<open>Partial<Weights>\<close>: every key may be missing.\<close>

record PartialWeights =
  pw_privateMethod :: "real option"
  pw_internalCall :: "real option"
  pw_internalType :: "real option"
  pw_exportedSymbol :: "real option"
  pw_publicMethod :: "real option"
  pw_externalImport :: "real option"
  pw_outgoingCall :: "real option"

record Thresholds =
  good :: real
  warning :: real

record Config =
  cfg_include :: "string list option"
  cfg_exclude :: "string list option"
  cfg_weights :: "PartialWeights option"
  cfg_alpha :: "real option"
  cfg_thresholds :: "Thresholds option"

definition DEFAULT_WEIGHTS :: Weights where
  "DEFAULT_WEIGHTS =
     \<lparr>privateMethod = 1, internalCall = 1, internalType = 2, exportedSymbol = 3,
      publicMethod = 2, externalImport = 2, outgoingCall = 2\<rparr>"

text \<open>The object literal \<^verbatim>\<open>{}\<close> read as a \<^verbatim>\<open>Partial<Weights>\<close>.\<close>

definition no_overrides :: PartialWeights where
  "no_overrides =
     \<lparr>pw_privateMethod = None, pw_internalCall = None, pw_internalType = None,
      pw_exportedSymbol = None, pw_publicMethod = None, pw_externalImport = None,
      pw_outgoingCall = None\<rparr>"

text \<open>
  One key of the object spread \<^verbatim>\<open>{ ...d, ...p }\<close>: the value of \<open>p\<close> where \<open>p\<close> has the
  key, the value of \<open>d\<close> otherwise.
\<close>

definition spread_key :: "real \<Rightarrow> real option \<Rightarrow> real" where
  "spread_key d p = (case p of None \<Rightarrow> d | Some w \<Rightarrow> w)"

definition spread_weights :: "Weights \<Rightarrow> PartialWeights \<Rightarrow> Weights" where
  "spread_weights d p =
     \<lparr>privateMethod = spread_key (privateMethod d) (pw_privateMethod p),
      internalCall = spread_key (internalCall d) (pw_internalCall p),
      internalType = spread_key (internalType d) (pw_internalType p),
      exportedSymbol = spread_key (exportedSymbol d) (pw_exportedSymbol p),
      publicMethod = spread_key (publicMethod d) (pw_publicMethod p),
      externalImport = spread_key (externalImport d) (pw_externalImport p),
      outgoingCall = spread_key (outgoingCall d) (pw_outgoingCall p)\<rparr>"

text \<open>\<^verbatim>\<open>const weights = { ...DEFAULT_WEIGHTS, ...(cfg.weights || {}) }\<close>\<close>

definition weights_of :: "Config \<Rightarrow> Weights" where
  "weights_of cfg =
     spread_weights DEFAULT_WEIGHTS
       (case cfg_weights cfg of None \<Rightarrow> no_overrides | Some p \<Rightarrow> p)"

text \<open>\<^verbatim>\<open>const alpha = cfg.alpha ?? 1.8\<close>\<close>

definition alpha_of :: "Config \<Rightarrow> real" where
  "alpha_of cfg = (case cfg_alpha cfg of None \<Rightarrow> 18 / 10 | Some a \<Rightarrow> a)"

text \<open>The configuration \<^verbatim>\<open>loadConfig\<close> returns when there is no configuration file.\<close>

definition default_config :: Config where
  "default_config =
     \<lparr>cfg_include = Some [''src/**/*.ts''], cfg_exclude = None,
      cfg_weights =
        Some \<lparr>pw_privateMethod = Some 1, pw_internalCall = Some 1, pw_internalType = Some 2,
              pw_exportedSymbol = Some 3, pw_publicMethod = Some 2,
              pw_externalImport = Some 2, pw_outgoingCall = Some 2\<rparr>,
      cfg_alpha = Some (18 / 10),
      cfg_thresholds = Some \<lparr>good = 10, warning = 3\<rparr>\<rparr>"

section \<open>The corpus as the parser presents it\<close>

text \<open>
  What the engine reads from a parsed source file through the parser's interface:
  the modifiers and body text of methods, the counts of properties and constructors of a
  class, the exported flag and body text of top-level functions, the names of the
  exported declarations, the module specifiers of the import declarations, the full text,
  and the call expressions.
\<close>

datatype SyntaxKind = PublicKeyword | PrivateKeyword | ProtectedKeyword | StaticKeyword
  | AbstractKeyword | AsyncKeyword

record MethodDeclaration =
  mth_modifiers :: "SyntaxKind list"
  mth_bodyText :: "string option"

definition hasModifier :: "MethodDeclaration \<Rightarrow> SyntaxKind \<Rightarrow> bool" where
  "hasModifier mth k = (k \<in> set (mth_modifiers mth))"

record ClassDeclaration =
  cls_methods :: "MethodDeclaration list"
  cls_properties :: nat
  cls_constructors :: nat

record FunctionDeclaration =
  fn_isExported :: bool
  fn_bodyText :: "string option"

text \<open>
  A symbol is known by its declarations, a declaration by the path of the source file it
  sits in (when it has one). Every expression node carries the symbol that \<^verbatim>\<open>getSymbol\<close>
  finds for it, if any; a property access \<^verbatim>\<open>o.name\<close> also carries its object expression
  \<open>o\<close>, the result of \<^verbatim>\<open>getExpression\<close>.
\<close>

datatype Declaration = Declaration (getSourceFilePath: "string option")

datatype Symbol = Symbol (getDeclarations: "Declaration list")

datatype Expression =
    Identifier "Symbol option"
  | PropertyAccessExpression Expression "Symbol option"
  | OtherExpression "Symbol option"

fun getSymbol :: "Expression \<Rightarrow> Symbol option" where
  "getSymbol (Identifier s) = s"
| "getSymbol (PropertyAccessExpression obj s) = s"
| "getSymbol (OtherExpression s) = s"

text \<open>A call expression, known by its callee: \<^verbatim>\<open>callNode.getExpression()\<close>.\<close>

datatype CallExpression = CallExpression (getExpression: Expression)

record SourceFile =
  sf_filePath :: string
  sf_exportedDeclarations :: "string list"
  sf_importDeclarations :: "string list"
  sf_classes :: "ClassDeclaration list"
  sf_functions :: "FunctionDeclaration list"
  sf_fullText :: string
  sf_calls :: "CallExpression list"

text \<open>
  What the engine takes from its surroundings: \<^verbatim>\<open>path.relative(process.cwd(), p)\<close>,
  \<^verbatim>\<open>minimatch(rel, pattern, { dot: true })\<close>, and the project. A project holds source
  files. \<^verbatim>\<open>project.addSourceFilesAtPaths(globs)\<close> puts into it the files that the globs
  find, enumerated in the order of the file system; the engine drops the value of that
  call. \<^verbatim>\<open>project.getSourceFiles()\<close> lists the files that the project holds, in an order
  of the project's own.
\<close>

record Env =
  relative :: "string \<Rightarrow> string"
  minimatch :: "string \<Rightarrow> string \<Rightarrow> bool"
  addSourceFilesAtPaths :: "string list \<Rightarrow> SourceFile list"
  getSourceFiles :: "SourceFile list \<Rightarrow> SourceFile list"

section \<open>Strings\<close>

text \<open>\<^verbatim>\<open>s.startsWith(p)\<close> is \<^term>\<open>prefix p s\<close>; \<^verbatim>\<open>s.includes(p)\<close>:\<close>

fun includes_str :: "string \<Rightarrow> string \<Rightarrow> bool" where
  "includes_str [] p = (p = [])"
| "includes_str (c # cs) p = (prefix p (c # cs) \<or> includes_str cs p)"

text \<open>
  The regular expression \<^verbatim>\<open>/fetch\(|axios\.|http\.request|XMLHttpRequest/\<close> is an
  alternation of four literal strings.
\<close>

definition outbound_patterns :: "string list" where
  "outbound_patterns = [''fetch('', ''axios.'', ''http.request'', ''XMLHttpRequest'']"

text \<open>\<^verbatim>\<open>re.test(body)\<close>: some alternative occurs somewhere in the body.\<close>

definition regex_test :: "string \<Rightarrow> bool" where
  "regex_test body = list_ex (includes_str body) outbound_patterns"

text \<open>The first alternative, in the order of the alternation, that matches at the start.\<close>

definition match_here :: "string \<Rightarrow> string option" where
  "match_here t = find (\<lambda>p. prefix p t) outbound_patterns"

text \<open>
  \<^verbatim>\<open>(text.match(re_g) || []).length\<close> with the global flag: scan from the left; where an
  alternative matches, count it and go on behind the match; elsewhere move one character
  on.
\<close>

fun match_count :: "string \<Rightarrow> nat" where
  "match_count [] = 0"
| "match_count (c # cs) =
     (case match_here (c # cs) of
        None \<Rightarrow> match_count cs
      | Some p \<Rightarrow> Suc (match_count (drop (length p - 1) cs)))"

section \<open>Resolving the target of a call\<close>

definition backslash :: char where
  "backslash = CHR 0x5C"

definition isNodeModuleFile :: "string \<Rightarrow> bool" where
  "isNodeModuleFile fp =
     (includes_str fp ''node_modules'' \<or> includes_str fp ''/@types/''
      \<or> includes_str fp (backslash # ''node_modules'' @ [backslash]))"

text \<open>
  The loop over the declarations: the first declaration that has a source file decides.
\<close>

fun first_declaration_file :: "(string \<Rightarrow> string) \<Rightarrow> Declaration list \<Rightarrow> string option" where
  "first_declaration_file rel [] = None"
| "first_declaration_file rel (d # ds) =
     (case getSourceFilePath d of
        None \<Rightarrow> first_declaration_file rel ds
      | Some declPath \<Rightarrow>
          if isNodeModuleFile declPath then Some ''external'' else Some (rel declPath))"

text \<open>
  \<^verbatim>\<open>resolveCallTargetFile\<close> returns a string or \<^verbatim>\<open>undefined\<close> (\<open>None\<close>). A \<^verbatim>\<open>getSymbol\<close>
  that throws inside the \<^verbatim>\<open>try\<close> gives \<^verbatim>\<open>undefined\<close> there, which is the \<open>None\<close> of
  the node.
\<close>

definition resolveCallTargetFile :: "(string \<Rightarrow> string) \<Rightarrow> CallExpression \<Rightarrow> string option" where
  "resolveCallTargetFile rel callNode =
     (let expr = getExpression callNode;
          sym0 = getSymbol expr;
          sym = (case sym0 of
                   Some s \<Rightarrow> Some s
                 | None \<Rightarrow>
                     (case expr of
                        PropertyAccessExpression obj _ \<Rightarrow> getSymbol obj
                      | Identifier _ \<Rightarrow> getSymbol expr
                      | OtherExpression _ \<Rightarrow> getSymbol expr))
      in case sym of
           None \<Rightarrow> None
         | Some s \<Rightarrow>
             (let decls = getDeclarations s
              in if length decls = 0 then None else first_declaration_file rel decls))"

section \<open>The accumulators\<close>

text \<open>The value type of \<^verbatim>\<open>modulesMap\<close>.\<close>

record Accumulator =
  exportedCount :: nat
  externalImports :: nat
  privateMethodCount :: nat
  publicMethodCount :: nat
  internalTypeCount :: nat
  outgoingCallHeuristic :: nat
  callsOut_total :: nat
  callsOut_internal :: nat
  callsOut_external :: nat
  incomingInternal :: nat
  incomingExternal :: nat

text \<open>
  \<^verbatim>\<open>modulesMap\<close> is an object keyed by the relative paths of the source files. It is
  an association list that keeps the keys in the order of their first insertion:
  \<^verbatim>\<open>modulesMap[k] = v\<close> is \<^const>\<open>AList.update\<close> (an existing key keeps its place, a new
  one goes to the end), a change of the object stored under \<open>k\<close> is
  \<^const>\<open>AList.map_entry\<close>, and \<^verbatim>\<open>modulesMap[k]\<close> is \<^const>\<open>map_of\<close>. (A key
  \<^verbatim>\<open>__proto__\<close> sets the prototype of the object: it is read and written like the
  others, and is taken here as a key like the others, although \<^verbatim>\<open>Object.entries\<close> does
  not list it.)
\<close>

type_synonym ModulesMap = "(string \<times> Accumulator) list"

text \<open>
  \<^verbatim>\<open>Object.entries\<close> lists the keys that are array indices first, in ascending numeric
  order, and then the other keys in the order of their insertion. An array index is the
  decimal numeral, without leading zeros, of an integer from 0 to \<^verbatim>\<open>2^32 - 2\<close>.
\<close>

definition is_digit :: "char \<Rightarrow> bool" where
  "is_digit c = (c \<in> set ''0123456789'')"

definition digit_value :: "char \<Rightarrow> nat" where
  "digit_value c = length (takeWhile (\<lambda>d. d \<noteq> c) ''0123456789'')"

definition decimal_value :: "string \<Rightarrow> nat" where
  "decimal_value ds = foldl (\<lambda>n c. 10 * n + digit_value c) 0 ds"

definition is_array_index :: "string \<Rightarrow> bool" where
  "is_array_index k =
     (case k of
        [] \<Rightarrow> False
      | c # cs \<Rightarrow>
          list_all is_digit k \<and> (c \<noteq> CHR ''0'' \<or> cs = []) \<and> decimal_value k \<le> 4294967294)"

definition object_entries :: "(string \<times> 'v) list \<Rightarrow> (string \<times> 'v) list" where
  "object_entries obj =
     sort_key (\<lambda>entry. decimal_value (fst entry)) (filter (\<lambda>entry. is_array_index (fst entry)) obj)
     @ filter (\<lambda>entry. \<not> is_array_index (fst entry)) obj"

definition zero_entry :: Accumulator where
  "zero_entry =
     \<lparr>exportedCount = 0, externalImports = 0, privateMethodCount = 0, publicMethodCount = 0,
      internalTypeCount = 0, outgoingCallHeuristic = 0, callsOut_total = 0,
      callsOut_internal = 0, callsOut_external = 0, incomingInternal = 0,
      incomingExternal = 0\<rparr>"

text \<open>The relative path of a source file, the key of its accumulator.\<close>

definition rel_path :: "Env \<Rightarrow> SourceFile \<Rightarrow> string" where
  "rel_path env sf = relative env (sf_filePath sf)"

text \<open>Initialize module entries.\<close>

definition init_modulesMap :: "Env \<Rightarrow> SourceFile list \<Rightarrow> ModulesMap" where
  "init_modulesMap env sfs = foldl (\<lambda>mm sf. AList.update (rel_path env sf) zero_entry mm) [] sfs"

section \<open>First pass: declarations\<close>

definition body_or_empty :: "string option \<Rightarrow> string" where
  "body_or_empty b = (case b of None \<Rightarrow> [] | Some t \<Rightarrow> t)"

definition isPublic :: "MethodDeclaration \<Rightarrow> bool" where
  "isPublic mth =
     (hasModifier mth PublicKeyword
      \<or> (\<not> hasModifier mth PrivateKeyword \<and> \<not> hasModifier mth ProtectedKeyword))"

definition visit_method :: "Accumulator \<Rightarrow> MethodDeclaration \<Rightarrow> Accumulator" where
  "visit_method m mth =
     (let m1 = (if isPublic mth then m\<lparr>publicMethodCount := publicMethodCount m + 1\<rparr>
                else m\<lparr>privateMethodCount := privateMethodCount m + 1\<rparr>);
          body = body_or_empty (mth_bodyText mth)
      in if regex_test body then m1\<lparr>outgoingCallHeuristic := outgoingCallHeuristic m1 + 1\<rparr>
         else m1)"

definition visit_class :: "Accumulator \<Rightarrow> ClassDeclaration \<Rightarrow> Accumulator" where
  "visit_class m cls =
     (let m1 = foldl visit_method m (cls_methods cls)
      in m1\<lparr>internalTypeCount := internalTypeCount m1 + (cls_properties cls + cls_constructors cls)\<rparr>)"

definition visit_function :: "Accumulator \<Rightarrow> FunctionDeclaration \<Rightarrow> Accumulator" where
  "visit_function m fn =
     (let body = body_or_empty (fn_bodyText fn);
          m1 = (if fn_isExported fn then m\<lparr>publicMethodCount := publicMethodCount m + 1\<rparr>
                else m\<lparr>privateMethodCount := privateMethodCount m + 1\<rparr>)
      in if regex_test body then m1\<lparr>outgoingCallHeuristic := outgoingCallHeuristic m1 + 1\<rparr>
         else m1)"

definition is_external_import :: "string \<Rightarrow> bool" where
  "is_external_import spec = (\<not> (prefix ''.'' spec \<or> prefix ''/'' spec))"

text \<open>The body of the first loop, on the accumulator of the file.\<close>

definition collect :: "SourceFile \<Rightarrow> Accumulator \<Rightarrow> Accumulator" where
  "collect sf m =
     (let m1 = m\<lparr>exportedCount := length (sf_exportedDeclarations sf)\<rparr>;
          m2 = m1\<lparr>externalImports := length (filter is_external_import (sf_importDeclarations sf))\<rparr>;
          m3 = foldl visit_class m2 (sf_classes sf);
          m4 = foldl visit_function m3 (sf_functions sf)
      in m4\<lparr>outgoingCallHeuristic := outgoingCallHeuristic m4 + match_count (sf_fullText sf)\<rparr>)"

definition first_pass :: "Env \<Rightarrow> SourceFile list \<Rightarrow> ModulesMap \<Rightarrow> ModulesMap" where
  "first_pass env sfs mm0 =
     foldl (\<lambda>mm sf. AList.map_entry (rel_path env sf) (collect sf) mm) mm0 sfs"

section \<open>Second pass: the call graph\<close>

text \<open>\<^verbatim>\<open>!target\<close>: \<^verbatim>\<open>undefined\<close> and the empty string are falsy.\<close>

definition falsy :: "string option \<Rightarrow> bool" where
  "falsy target = (target = None \<or> target = Some [])"

definition inc_total :: "Accumulator \<Rightarrow> Accumulator" where
  "inc_total e = e\<lparr>callsOut_total := callsOut_total e + 1\<rparr>"

definition inc_internal :: "Accumulator \<Rightarrow> Accumulator" where
  "inc_internal e = e\<lparr>callsOut_internal := callsOut_internal e + 1\<rparr>"

definition inc_external :: "Accumulator \<Rightarrow> Accumulator" where
  "inc_external e = e\<lparr>callsOut_external := callsOut_external e + 1\<rparr>"

definition add_incomingInternal :: "nat \<Rightarrow> Accumulator \<Rightarrow> Accumulator" where
  "add_incomingInternal n e = e\<lparr>incomingInternal := incomingInternal e + n\<rparr>"

text \<open>
  The body of the loop over the calls of the file \<open>callerFile\<close>. \<^verbatim>\<open>callerEntry\<close> is the
  object stored under \<open>callerFile\<close>; \<^verbatim>\<open>if (modulesMap[target])\<close> asks whether \<open>target\<close>
  is a key.
\<close>

definition process_call :: "Env \<Rightarrow> string \<Rightarrow> ModulesMap \<Rightarrow> CallExpression \<Rightarrow> ModulesMap" where
  "process_call env callerFile mm call =
     (let mm1 = AList.map_entry callerFile inc_total mm;
          target = resolveCallTargetFile (relative env) call
      in if target = Some ''external'' then AList.map_entry callerFile inc_external mm1
         else if falsy target then AList.map_entry callerFile inc_external mm1
         else if target = Some callerFile then
           AList.map_entry callerFile (add_incomingInternal 0)
             (AList.map_entry callerFile inc_internal mm1)
         else
           (let mm2 = AList.map_entry callerFile inc_external mm1
            in case target of
                 None \<Rightarrow> mm2
               | Some t \<Rightarrow>
                   (case map_of mm2 t of
                      Some _ \<Rightarrow> AList.map_entry t (add_incomingInternal 1) mm2
                    | None \<Rightarrow> mm2)))"

definition process_file :: "Env \<Rightarrow> ModulesMap \<Rightarrow> SourceFile \<Rightarrow> ModulesMap" where
  "process_file env mm sf = foldl (process_call env (rel_path env sf)) mm (sf_calls sf)"

definition second_pass :: "Env \<Rightarrow> SourceFile list \<Rightarrow> ModulesMap \<Rightarrow> ModulesMap" where
  "second_pass env sfs mm0 = foldl (process_file env) mm0 sfs"

section \<open>Composing and ranking the metrics\<close>

text \<open>
  A double: not a number, an infinity, the negative zero, or a finite real; \<open>Finite 0\<close> is
  the positive zero. The range of the doubles is kept, the rounding of the mantissa is
  not: a real result at or beyond \<^verbatim>\<open>2^1024 - 2^970\<close>, half a step above the largest
  double, becomes an infinity; one of magnitude up to \<^verbatim>\<open>2^-1075\<close>, half the smallest
  positive double, becomes a zero; any other result stays as it is.
\<close>

datatype JSNumber = NaN | PosInfinity | NegInfinity | NegZero | Finite real

definition OVERFLOW_FROM :: real where
  "OVERFLOW_FROM = 2 ^ 1024 - 2 ^ 970"

definition UNDERFLOW_UPTO :: real where
  "UNDERFLOW_UPTO = 1 / 2 ^ 1075"

definition to_double :: "real \<Rightarrow> JSNumber" where
  "to_double x =
     (if OVERFLOW_FROM \<le> x then PosInfinity
      else if x \<le> - OVERFLOW_FROM then NegInfinity
      else if \<bar>x\<bar> \<le> UNDERFLOW_UPTO then (if x < 0 then NegZero else Finite 0)
      else Finite x)"

text \<open>\<^verbatim>\<open>Number.EPSILON\<close>, the difference between 1 and the next larger double.\<close>

definition Number_EPSILON :: real where
  "Number_EPSILON = 1 / 2 ^ 52"


text \<open>
  \<^verbatim>\<open>Math.pow(base, exponent)\<close> for a finite base and a finite exponent, in the order of
  the cases of the language: a zero exponent gives 1; a zero base gives 0 or an infinity;
  a negative base with an exponent that is no integer gives NaN; otherwise the real power,
  brought into the range of the doubles.
\<close>

definition Math_pow :: "real \<Rightarrow> real \<Rightarrow> JSNumber" where
  "Math_pow base exponent =
     (if exponent = 0 then Finite 1
      else if base = 0 then (if 0 < exponent then Finite 0 else PosInfinity)
      else if base < 0 \<and> of_int \<lfloor>exponent\<rfloor> \<noteq> exponent then NaN
      else if base < 0 then
        to_double ((if even \<lfloor>exponent\<rfloor> then 1 else - 1) * (\<bar>base\<bar> powr exponent))
      else to_double (base powr exponent))"

text \<open>
  The quotient \<^verbatim>\<open>v / d\<close> of a finite \<open>v\<close> (a zero \<open>v\<close> is the positive zero) and a
  double \<open>d\<close>.
\<close>

definition divide_by :: "real \<Rightarrow> JSNumber \<Rightarrow> JSNumber" where
  "divide_by v d =
     (case d of
        NaN \<Rightarrow> NaN
      | PosInfinity \<Rightarrow> (if v < 0 then NegZero else Finite 0)
      | NegInfinity \<Rightarrow> (if v < 0 then Finite 0 else NegZero)
      | NegZero \<Rightarrow> (if v = 0 then NaN else if 0 < v then NegInfinity else PosInfinity)
      | Finite y \<Rightarrow>
          if y = 0 then (if v = 0 then NaN else if 0 < v then PosInfinity else NegInfinity)
          else if v = 0 then (if y < 0 then NegZero else Finite 0)
          else to_double (v / y))"

text \<open>
  The difference \<^verbatim>\<open>a - b\<close> of two doubles. The difference of two finite doubles is never
  rounded to zero; the sign of a zero difference is not kept.
\<close>

fun finite_value :: "JSNumber \<Rightarrow> real option" where
  "finite_value (Finite x) = Some x"
| "finite_value NegZero = Some 0"
| "finite_value _ = None"

definition js_minus :: "JSNumber \<Rightarrow> JSNumber \<Rightarrow> JSNumber" where
  "js_minus a b =
     (if a = NaN \<or> b = NaN then NaN
      else if a = PosInfinity then (if b = PosInfinity then NaN else PosInfinity)
      else if a = NegInfinity then (if b = NegInfinity then NaN else NegInfinity)
      else if b = PosInfinity then NegInfinity
      else if b = NegInfinity then PosInfinity
      else
        (case (finite_value a, finite_value b) of
           (Some x, Some y) \<Rightarrow>
             if OVERFLOW_FROM \<le> x - y then PosInfinity
             else if x - y \<le> - OVERFLOW_FROM then NegInfinity
             else Finite (x - y)
         | _ \<Rightarrow> NaN))"

text \<open>\<^verbatim>\<open>v > 0\<close> and \<^verbatim>\<open>a <= b\<close> on doubles; both are false where a NaN takes part.\<close>

definition is_positive :: "JSNumber \<Rightarrow> bool" where
  "is_positive v = (case v of PosInfinity \<Rightarrow> True | Finite x \<Rightarrow> 0 < x | _ \<Rightarrow> False)"

definition js_le :: "JSNumber \<Rightarrow> JSNumber \<Rightarrow> bool" where
  "js_le a b =
     (if a = NaN \<or> b = NaN then False
      else if a = NegInfinity \<or> b = PosInfinity then True
      else if a = PosInfinity \<or> b = NegInfinity then False
      else
        (case (finite_value a, finite_value b) of
           (Some x, Some y) \<Rightarrow> x \<le> y
         | _ \<Rightarrow> False))"

definition js_eq :: "JSNumber \<Rightarrow> JSNumber \<Rightarrow> bool" where
  "js_eq a b = (js_le a b \<and> js_le b a)"

text \<open>A key that orders the doubles other than NaN as \<^verbatim>\<open><=\<close> does; both zeros have one key.\<close>

definition order_key :: "JSNumber \<Rightarrow> int \<times> real" where
  "order_key v =
     (case v of
        NegInfinity \<Rightarrow> (- 1, 0)
      | NegZero \<Rightarrow> (0, 0)
      | Finite x \<Rightarrow> (0, x)
      | PosInfinity \<Rightarrow> (1, 0)
      | NaN \<Rightarrow> (2, 0))"


record ModuleMetrics =
  mm_id :: string
  mm_file :: string
  mm_V :: real
  mm_A :: real
  mm_extras :: Accumulator
  mm_s :: "JSNumber option"
  mm_cohesion :: "real option"

definition rawV_of :: "Weights \<Rightarrow> Accumulator \<Rightarrow> real" where
  "rawV_of w d =
     (real (privateMethodCount d) * privateMethod w)
     + (real (callsOut_internal d + incomingInternal d) * internalCall w)
     + (real (internalTypeCount d) * internalType w)"

definition rawA_of :: "Weights \<Rightarrow> Accumulator \<Rightarrow> real" where
  "rawA_of w d =
     (real (exportedCount d) * exportedSymbol w)
     + (real (publicMethodCount d) * publicMethod w)
     + (real (externalImports d) * externalImport w)
     + (real (outgoingCallHeuristic d) * outgoingCall w)
     + (real (callsOut_external d) * outgoingCall w)"

definition cohesion_of :: "Accumulator \<Rightarrow> real" where
  "cohesion_of d =
     (if callsOut_total d = 0 then 1 else real (callsOut_internal d) / real (callsOut_total d))"

definition compose_metrics :: "Weights \<Rightarrow> real \<Rightarrow> string \<times> Accumulator \<Rightarrow> ModuleMetrics" where
  "compose_metrics w alpha entry =
     (let file = fst entry; d = snd entry;
          rawV = rawV_of w d;
          rawA = rawA_of w d;
          cohesion = cohesion_of d;
          AforS = (if rawA = 0 then Number_EPSILON else rawA);
          s = divide_by rawV (Math_pow AforS alpha)
      in \<lparr>mm_id = file, mm_file = file, mm_V = rawV, mm_A = rawA, mm_extras = d,
          mm_s = Some s, mm_cohesion = Some cohesion\<rparr>)"

text \<open>The comparison function \<^verbatim>\<open>(a, b) => (a.s ?? 0) - (b.s ?? 0)\<close>.\<close>

definition s_or_0 :: "ModuleMetrics \<Rightarrow> JSNumber" where
  "s_or_0 m = (case mm_s m of None \<Rightarrow> Finite 0 | Some x \<Rightarrow> x)"

definition compare_s :: "ModuleMetrics \<Rightarrow> ModuleMetrics \<Rightarrow> JSNumber" where
  "compare_s a b = js_minus (s_or_0 a) (s_or_0 b)"

text \<open>
  \<^verbatim>\<open>Array.prototype.sort\<close> is stable and takes a NaN of the comparison function for a
  zero: an element moves in front of another one only where the comparison function is
  positive for the pair in its old order. Insertion from the right does that; where the
  comparison function is consistent, every stable sort gives the same result, and where
  it is not, the order is left to the implementation.
\<close>

fun insert_by :: "('a \<Rightarrow> 'a \<Rightarrow> JSNumber) \<Rightarrow> 'a \<Rightarrow> 'a list \<Rightarrow> 'a list" where
  "insert_by cmp x [] = [x]"
| "insert_by cmp x (y # ys) =
     (if is_positive (cmp x y) then y # insert_by cmp x ys else x # y # ys)"

definition array_sort :: "('a \<Rightarrow> 'a \<Rightarrow> JSNumber) \<Rightarrow> 'a list \<Rightarrow> 'a list" where
  "array_sort cmp xs = foldr (insert_by cmp) xs []"

section \<open>The engine\<close>

text \<open>
  The files that the project holds after the include globs and the manual excludes:
  \<open>toRemove\<close> is taken from the listing of the project, and every file of it is removed.
\<close>

definition is_excluded :: "Env \<Rightarrow> string list \<Rightarrow> SourceFile \<Rightarrow> bool" where
  "is_excluded env ex sf = list_ex (\<lambda>pattern. minimatch env (rel_path env sf) pattern) ex"

definition project_held :: "Env \<Rightarrow> Config \<Rightarrow> SourceFile list" where
  "project_held env cfg =
     (let filesToAdd = (case cfg_include cfg of None \<Rightarrow> [''src/**/*.ts''] | Some i \<Rightarrow> i);
          project = addSourceFilesAtPaths env filesToAdd
      in case cfg_exclude cfg of
           None \<Rightarrow> project
         | Some ex \<Rightarrow>
             if length ex > 0
             then (let toRemove = filter (is_excluded env ex) (getSourceFiles env project)
                   in filter (\<lambda>sf. sf \<notin> set toRemove) project)
             else project)"

text \<open>\<^verbatim>\<open>project.getSourceFiles()\<close> as the three loops of the engine see it.\<close>

definition project_files :: "Env \<Rightarrow> Config \<Rightarrow> SourceFile list" where
  "project_files env cfg = getSourceFiles env (project_held env cfg)"

text \<open>The accumulators after both passes.\<close>

definition accumulate :: "Env \<Rightarrow> SourceFile list \<Rightarrow> ModulesMap" where
  "accumulate env sfs = second_pass env sfs (first_pass env sfs (init_modulesMap env sfs))"

record AnalyzeResult =
  results :: "ModuleMetrics list"
  res_alpha :: real
  res_thresholds :: "Thresholds option"

definition analyze :: "Env \<Rightarrow> Config \<Rightarrow> AnalyzeResult" where
  "analyze env cfg =
     (let w = weights_of cfg;
          alpha = alpha_of cfg;
          sfs = project_files env cfg;
          modulesMap = accumulate env sfs;
          modules = map (compose_metrics w alpha) (object_entries modulesMap)
      in \<lparr>results = array_sort compare_s modules, res_alpha = alpha,
          res_thresholds = cfg_thresholds cfg\<rparr>)"

section \<open>Notions of the specification\<close>

text \<open>
  The weight of a category as the specification words it: the configured override for
  that category if present, the built-in default otherwise.
\<close>

definition configured_weight ::
  "Config \<Rightarrow> (PartialWeights \<Rightarrow> real option) \<Rightarrow> (Weights \<Rightarrow> real) \<Rightarrow> real" where
  "configured_weight cfg override builtin =
     (case cfg_weights cfg of
        None \<Rightarrow> builtin DEFAULT_WEIGHTS
      | Some p \<Rightarrow> (case override p of None \<Rightarrow> builtin DEFAULT_WEIGHTS | Some w \<Rightarrow> w))"

text \<open>
  The four classes of a call, named after the branches of the loop body in their order:
  the marker \<^verbatim>\<open>'external'\<close> is tested first, a falsy value next, and only a value that
  passed both is compared with the path of the caller.
\<close>

datatype CallKind = SelfInternal | CrossModule string | TrueExternal | Unresolved

definition classify :: "string \<Rightarrow> string option \<Rightarrow> CallKind" where
  "classify callerFile target =
     (case target of
        None \<Rightarrow> Unresolved
      | Some t \<Rightarrow>
          if t = ''external'' then TrueExternal
          else if t = [] then Unresolved
          else if t = callerFile then SelfInternal
          else CrossModule t)"

definition call_kind :: "Env \<Rightarrow> string \<Rightarrow> CallExpression \<Rightarrow> CallKind" where
  "call_kind env callerFile call = classify callerFile (resolveCallTargetFile (relative env) call)"

text \<open>The left-most sub-expression of a member-access chain: \<open>a\<close> in \<^verbatim>\<open>a.b.c\<close>.\<close>

fun spec_leftmost :: "Expression \<Rightarrow> Expression" where
  "spec_leftmost (PropertyAccessExpression obj s) = spec_leftmost obj"
| "spec_leftmost e = e"

text \<open>
  The bodies that the first pass scans: those of the methods of the classes, then those
  of the top-level functions.
\<close>

definition scanned_bodies :: "SourceFile \<Rightarrow> string list" where
  "scanned_bodies sf =
     map (\<lambda>mth. body_or_empty (mth_bodyText mth)) (concat (map cls_methods (sf_classes sf)))
     @ map (\<lambda>fn. body_or_empty (fn_bodyText fn)) (sf_functions sf)"

text \<open>A pattern occurs in a text at a position; the number of positions where one occurs.\<close>

definition occurs_at :: "string \<Rightarrow> nat \<Rightarrow> bool" where
  "occurs_at t i = list_ex (\<lambda>p. prefix p (drop i t)) outbound_patterns"

definition occurrences :: "string \<Rightarrow> nat" where
  "occurrences t = length (filter (occurs_at t) [0..<length t])"

text \<open>The metrics in the order of \<^verbatim>\<open>Object.entries(modulesMap)\<close>, before the sort.\<close>

definition unsorted_metrics :: "Env \<Rightarrow> Config \<Rightarrow> ModuleMetrics list" where
  "unsorted_metrics env cfg =
     map (compose_metrics (weights_of cfg) (alpha_of cfg))
       (object_entries (accumulate env (project_files env cfg)))"

text \<open>
  The order in which the loader enumerated the modules: that of the files which the
  include globs find.
\<close>

definition enumeration_order :: "Env \<Rightarrow> Config \<Rightarrow> string list" where
  "enumeration_order env cfg =
     map (rel_path env)
       (addSourceFilesAtPaths env
          (case cfg_include cfg of None \<Rightarrow> [''src/**/*.ts''] | Some i \<Rightarrow> i))"

text \<open>
  The order in which the project lists the modules: each path of the listing once, at the
  place of its first occurrence. The order of the entries of an object with these keys:
  the array indices first, in numeric order, then the other keys as they are listed.
\<close>

definition listing_order :: "Env \<Rightarrow> Config \<Rightarrow> string list" where
  "listing_order env cfg = rev (remdups (rev (map (rel_path env) (project_files env cfg))))"

definition entries_order :: "string list \<Rightarrow> string list" where
  "entries_order ks =
     sort_key decimal_value (filter is_array_index ks) @ filter (\<lambda>k. \<not> is_array_index k) ks"



text \<open>A project lists exactly the files that it holds.\<close>

definition lists_what_it_holds :: "Env \<Rightarrow> bool" where
  "lists_what_it_holds env = (\<forall>held. set (getSourceFiles env held) = set held)"

text \<open>
  All calls of a list of files, each with the path of its file, in the order of the
  resolver pass; the classes of calls that go into the external bucket.
\<close>

definition all_calls :: "Env \<Rightarrow> SourceFile list \<Rightarrow> (string \<times> CallExpression) list" where
  "all_calls env sfs = concat (map (\<lambda>sf. map (\<lambda>call. (rel_path env sf, call)) (sf_calls sf)) sfs)"

text \<open>One step of the resolver pass on a call paired with the path of its file.\<close>

definition step :: "Env \<Rightarrow> ModulesMap \<Rightarrow> string \<times> CallExpression \<Rightarrow> ModulesMap" where
  "step env mm pair = process_call env (fst pair) mm (snd pair)"

fun in_external_bucket :: "CallKind \<Rightarrow> bool" where
  "in_external_bucket (CrossModule t) = True"
| "in_external_bucket TrueExternal = True"
| "in_external_bucket Unresolved = True"
| "in_external_bucket SelfInternal = False"

text \<open>The outgoing calls of an accumulator are in balance, and it has no incoming external call.\<close>

definition balanced :: "Accumulator \<Rightarrow> bool" where
  "balanced e =
     (callsOut_internal e + callsOut_external e = callsOut_total e \<and> incomingExternal e = 0)"

definition all_entries :: "(Accumulator \<Rightarrow> bool) \<Rightarrow> ModulesMap \<Rightarrow> bool" where
  "all_entries P mm = list_all (\<lambda>entry. P (snd entry)) mm"

section \<open>A small corpus\<close>

text \<open>
  Five files under the working directory \<^verbatim>\<open>/w\<close>. \<^verbatim>\<open>src/a.ts\<close> has a class with a
  public and a private method, an exported function, and five calls: to itself, into
  \<^verbatim>\<open>src/b.ts\<close>, into a dependency, an unresolved one, and one into \<^verbatim>\<open>src/gen.ts\<close>,
  which the configuration excludes. The other files are empty. The globs find the files
  in the order b, d, a, c, gen; the project lists what it holds by path.
\<close>

definition sym_in :: "string \<Rightarrow> Symbol" where
  "sym_in p = Symbol [Declaration (Some p)]"

definition ex_relative :: "string \<Rightarrow> string" where
  "ex_relative p = drop 3 p"

definition ex_empty :: "string \<Rightarrow> SourceFile" where
  "ex_empty p =
     \<lparr>sf_filePath = p, sf_exportedDeclarations = [], sf_importDeclarations = [],
      sf_classes = [], sf_functions = [], sf_fullText = [], sf_calls = []\<rparr>"

definition ex_self_call :: CallExpression where
  "ex_self_call = CallExpression (Identifier (Some (sym_in ''/w/src/a.ts'')))"

definition ex_cross_call :: CallExpression where
  "ex_cross_call =
     CallExpression (PropertyAccessExpression (Identifier (Some (sym_in ''/w/src/b.ts''))) None)"

definition ex_external_call :: CallExpression where
  "ex_external_call = CallExpression (Identifier (Some (sym_in ''/w/node_modules/x/index.d.ts'')))"

definition ex_unresolved_call :: CallExpression where
  "ex_unresolved_call = CallExpression (OtherExpression None)"

definition ex_excluded_call :: CallExpression where
  "ex_excluded_call = CallExpression (Identifier (Some (sym_in ''/w/src/gen.ts'')))"

text \<open>
  Two more calls. In \<^verbatim>\<open>a.b.c()\<close> only \<open>a\<close> has a symbol, declared in \<^verbatim>\<open>src/b.ts\<close>; in
  the other call the object of the member access has a symbol without declarations.
\<close>

definition ex_chain_call :: CallExpression where
  "ex_chain_call =
     CallExpression
       (PropertyAccessExpression
          (PropertyAccessExpression (Identifier (Some (sym_in ''/w/src/b.ts''))) None) None)"

definition ex_nodecl_call :: CallExpression where
  "ex_nodecl_call = CallExpression (PropertyAccessExpression (Identifier (Some (Symbol []))) None)"

definition ex_a :: SourceFile where
  "ex_a =
     \<lparr>sf_filePath = ''/w/src/a.ts'',
      sf_exportedDeclarations = [''run''],
      sf_importDeclarations = [''./b'', ''fs''],
      sf_classes =
        [\<lparr>cls_methods =
            [\<lparr>mth_modifiers = [], mth_bodyText = Some ''fetch(u)''\<rparr>,
             \<lparr>mth_modifiers = [PrivateKeyword], mth_bodyText = Some ''h()''\<rparr>],
          cls_properties = 1, cls_constructors = 1\<rparr>],
      sf_functions = [\<lparr>fn_isExported = True, fn_bodyText = Some ''axios.get(u)''\<rparr>],
      sf_fullText = ''fetch(u);axios.get(u)'',
      sf_calls =
        [ex_self_call, ex_cross_call, ex_external_call, ex_unresolved_call, ex_excluded_call]\<rparr>"

definition ex_rank :: "SourceFile \<Rightarrow> nat" where
  "ex_rank sf =
     length (takeWhile (\<lambda>p. p \<noteq> sf_filePath sf)
       [''/w/src/a.ts'', ''/w/src/b.ts'', ''/w/src/c.ts'', ''/w/src/d.ts'', ''/w/src/gen.ts''])"

definition ex_env :: Env where
  "ex_env =
     \<lparr>relative = ex_relative, minimatch = (\<lambda>rel pattern. rel = pattern),
      addSourceFilesAtPaths =
        (\<lambda>globs. [ex_empty ''/w/src/b.ts'', ex_empty ''/w/src/d.ts'', ex_a,
                  ex_empty ''/w/src/c.ts'', ex_empty ''/w/src/gen.ts'']),
      getSourceFiles = sort_key ex_rank\<rparr>"

definition ex_cfg :: Config where
  "ex_cfg =
     \<lparr>cfg_include = None, cfg_exclude = Some [''src/gen.ts''], cfg_weights = None,
      cfg_alpha = Some 2, cfg_thresholds = None\<rparr>"

text \<open>The accumulators of the corpus after both passes, and its metrics.\<close>

definition ex_acc_a :: Accumulator where
  "ex_acc_a =
     \<lparr>exportedCount = 1, externalImports = 1, privateMethodCount = 1, publicMethodCount = 2,
      internalTypeCount = 2, outgoingCallHeuristic = 4, callsOut_total = 5,
      callsOut_internal = 1, callsOut_external = 4, incomingInternal = 0,
      incomingExternal = 0\<rparr>"

definition ex_acc_b :: Accumulator where
  "ex_acc_b = zero_entry\<lparr>incomingInternal := 1\<rparr>"

definition ex_metrics_a :: ModuleMetrics where
  "ex_metrics_a =
     \<lparr>mm_id = ''src/a.ts'', mm_file = ''src/a.ts'', mm_V = 6, mm_A = 25, mm_extras = ex_acc_a,
      mm_s = Some (Finite (6 / 625)), mm_cohesion = Some (1 / 5)\<rparr>"

definition ex_metrics_b :: ModuleMetrics where
  "ex_metrics_b =
     \<lparr>mm_id = ''src/b.ts'', mm_file = ''src/b.ts'', mm_V = 1, mm_A = 0, mm_extras = ex_acc_b,
      mm_s = Some (Finite (2 ^ 104)), mm_cohesion = Some 1\<rparr>"

definition ex_metrics_empty :: "string \<Rightarrow> ModuleMetrics" where
  "ex_metrics_empty file =
     \<lparr>mm_id = file, mm_file = file, mm_V = 0, mm_A = 0, mm_extras = zero_entry,
      mm_s = Some (Finite 0), mm_cohesion = Some 1\<rparr>"

text \<open>
  Two more corpora, in projects that list their files as they were added. In the first,
  two files hold one private function each and a third is empty, and the exponent is 25.
  In the second, the files \<^verbatim>\<open>/w/10\<close> and \<^verbatim>\<open>/w/7\<close> are empty.
\<close>

definition ex_plain_env :: "SourceFile list \<Rightarrow> Env" where
  "ex_plain_env sfs =
     \<lparr>relative = ex_relative, minimatch = (\<lambda>rel pattern. rel = pattern),
      addSourceFilesAtPaths = (\<lambda>globs. sfs), getSourceFiles = (\<lambda>held. held)\<rparr>"

definition ex_private :: "string \<Rightarrow> SourceFile" where
  "ex_private p =
     \<lparr>sf_filePath = p, sf_exportedDeclarations = [], sf_importDeclarations = [],
      sf_classes = [], sf_functions = [\<lparr>fn_isExported = False, fn_bodyText = Some ''return 1''\<rparr>],
      sf_fullText = ''function f() { return 1 }'', sf_calls = []\<rparr>"

definition ex_steep_env :: Env where
  "ex_steep_env =
     ex_plain_env [ex_private ''/w/src/p.ts'', ex_private ''/w/src/q.ts'', ex_empty ''/w/src/r.ts'']"

definition ex_steep_cfg :: Config where
  "ex_steep_cfg =
     \<lparr>cfg_include = None, cfg_exclude = None, cfg_weights = None, cfg_alpha = Some 25,
      cfg_thresholds = None\<rparr>"

definition ex_acc_private :: Accumulator where
  "ex_acc_private = zero_entry\<lparr>privateMethodCount := 1\<rparr>"

definition ex_metrics_private :: "string \<Rightarrow> ModuleMetrics" where
  "ex_metrics_private file =
     \<lparr>mm_id = file, mm_file = file, mm_V = 1, mm_A = 0, mm_extras = ex_acc_private,
      mm_s = Some PosInfinity, mm_cohesion = Some 1\<rparr>"

definition ex_metrics_nan :: "string \<Rightarrow> ModuleMetrics" where
  "ex_metrics_nan file =
     \<lparr>mm_id = file, mm_file = file, mm_V = 0, mm_A = 0, mm_extras = zero_entry,
      mm_s = Some NaN, mm_cohesion = Some 1\<rparr>"

definition ex_index_env :: Env where
  "ex_index_env = ex_plain_env [ex_empty ''/w/10'', ex_empty ''/w/7'']"

definition ex_index_cfg :: Config where
  "ex_index_cfg =
     \<lparr>cfg_include = None, cfg_exclude = None, cfg_weights = None, cfg_alpha = Some 2,
      cfg_thresholds = None\<rparr>"

section \<open>Association lists and the sort\<close>

lemma map_entry_keys: "map fst (AList.map_entry k f xs) = map fst xs"
  by (induction xs) auto

lemma map_entry_twice:
  "AList.map_entry k f (AList.map_entry k g xs) = AList.map_entry k (f \<circ> g) xs"
  by (induction xs) auto

lemma all_entries_map_entry:
  "all_entries P mm \<Longrightarrow> (\<And>e. P e \<Longrightarrow> P (f e)) \<Longrightarrow> all_entries P (AList.map_entry k f mm)"
  unfolding all_entries_def by (induction mm) auto

lemma all_entries_update:
  "P v \<Longrightarrow> all_entries P mm \<Longrightarrow> all_entries P (AList.update k v mm)"
  unfolding all_entries_def by (induction mm) auto

lemma all_entries_init: "P zero_entry \<Longrightarrow> all_entries P (init_modulesMap env sfs)"
proof -
  assume z: "P zero_entry"
  have "all_entries P mm \<Longrightarrow>
        all_entries P (foldl (\<lambda>mm sf. AList.update (rel_path env sf) zero_entry mm) mm sfs)" for mm
    by (induction sfs arbitrary: mm) (simp_all add: all_entries_update z)
  from this[of "[]"] show ?thesis
    unfolding init_modulesMap_def by (simp add: all_entries_def)
qed

lemma set_insert_by: "set (insert_by cmp x ys) = insert x (set ys)"
  by (induction ys) auto

lemma set_array_sort: "set (array_sort cmp xs) = set xs"
  by (induction xs) (simp_all add: array_sort_def set_insert_by)

lemma set_object_entries: "set (object_entries obj) = set obj"
  by (auto simp: object_entries_def)

lemma results_analyze: "results (analyze env cfg) = array_sort compare_s (unsorted_metrics env cfg)"
  by (simp add: analyze_def Let_def unsorted_metrics_def)

lemma set_results: "set (results (analyze env cfg)) = set (unsorted_metrics env cfg)"
  by (simp add: results_analyze set_array_sort)

section \<open>The balance of the counters through the passes\<close>

lemma visit_method_frame:
  "callsOut_total (visit_method m mth) = callsOut_total m"
  "callsOut_internal (visit_method m mth) = callsOut_internal m"
  "callsOut_external (visit_method m mth) = callsOut_external m"
  "incomingInternal (visit_method m mth) = incomingInternal m"
  "incomingExternal (visit_method m mth) = incomingExternal m"
  by (simp_all add: visit_method_def Let_def)

lemma balanced_visit_method: "balanced m \<Longrightarrow> balanced (visit_method m mth)"
  by (simp add: balanced_def visit_method_frame)

lemma balanced_foldl:
  "balanced m \<Longrightarrow> (\<And>m x. balanced m \<Longrightarrow> balanced (f m x)) \<Longrightarrow> balanced (foldl f m xs)"
  by (induction xs arbitrary: m) simp_all

lemma balanced_visit_class: "balanced m \<Longrightarrow> balanced (visit_class m cls)"
proof -
  assume "balanced m"
  then have "balanced (foldl visit_method m (cls_methods cls))"
    by (rule balanced_foldl) (rule balanced_visit_method)
  then show ?thesis by (simp add: visit_class_def Let_def balanced_def)
qed

lemma balanced_visit_function: "balanced m \<Longrightarrow> balanced (visit_function m fn)"
  by (simp add: balanced_def visit_function_def Let_def)

lemma balanced_collect: "balanced m \<Longrightarrow> balanced (collect sf m)"
proof -
  assume b: "balanced m"
  let ?m2 = "m\<lparr>exportedCount := length (sf_exportedDeclarations sf),
               externalImports := length (filter is_external_import (sf_importDeclarations sf))\<rparr>"
  from b have "balanced ?m2" by (simp add: balanced_def)
  then have "balanced (foldl visit_class ?m2 (sf_classes sf))"
    by (rule balanced_foldl) (rule balanced_visit_class)
  then have "balanced (foldl visit_function (foldl visit_class ?m2 (sf_classes sf)) (sf_functions sf))"
    by (rule balanced_foldl) (rule balanced_visit_function)
  then show ?thesis by (simp add: collect_def Let_def balanced_def)
qed

lemma all_entries_first_pass:
  "all_entries balanced mm \<Longrightarrow> all_entries balanced (first_pass env sfs mm)"
  unfolding first_pass_def
  by (induction sfs arbitrary: mm) (simp_all add: all_entries_map_entry balanced_collect)

lemma balanced_steps:
  "balanced e \<Longrightarrow> balanced (inc_external (inc_total e))"
  "balanced e \<Longrightarrow> balanced (add_incomingInternal n (inc_internal (inc_total e)))"
  "balanced e \<Longrightarrow> balanced (add_incomingInternal n e)"
  by (simp_all add: balanced_def inc_external_def inc_total_def inc_internal_def
      add_incomingInternal_def)

lemma all_entries_process_call:
  assumes "all_entries balanced mm"
  shows "all_entries balanced (process_call env callerFile mm call)"
proof -
  have ext: "all_entries balanced (AList.map_entry callerFile (inc_external \<circ> inc_total) mm)"
    using assms by (rule all_entries_map_entry) (simp add: balanced_steps)
  have int: "all_entries balanced
      (AList.map_entry callerFile (add_incomingInternal 0 \<circ> (inc_internal \<circ> inc_total)) mm)"
    using assms by (rule all_entries_map_entry) (simp add: balanced_steps)
  have tgt: "all_entries balanced
      (AList.map_entry t (add_incomingInternal 1)
         (AList.map_entry callerFile (inc_external \<circ> inc_total) mm))" for t
    using ext by (rule all_entries_map_entry) (simp add: balanced_steps)
  show ?thesis
    unfolding process_call_def Let_def map_entry_twice comp_assoc
    using ext int tgt by (simp split: option.splits)
qed

lemma all_entries_second_pass:
  "all_entries balanced mm \<Longrightarrow> all_entries balanced (second_pass env sfs mm)"
proof -
  have calls: "all_entries balanced mm \<Longrightarrow>
      all_entries balanced (foldl (process_call env c) mm cs)" for mm c cs
    by (induction cs arbitrary: mm) (simp_all add: all_entries_process_call)
  have one_file: "all_entries balanced mm \<Longrightarrow> all_entries balanced (process_file env mm sf)"
    for mm sf
    unfolding process_file_def by (rule calls)
  show "all_entries balanced mm \<Longrightarrow> all_entries balanced (second_pass env sfs mm)"
    unfolding second_pass_def
    by (induction sfs arbitrary: mm) (simp_all add: one_file)
qed

lemma all_entries_accumulate: "all_entries balanced (accumulate env sfs)"
  unfolding accumulate_def
  by (intro all_entries_second_pass all_entries_first_pass all_entries_init)
     (simp add: balanced_def zero_entry_def)

lemma results_extras_balanced:
  assumes "m \<in> set (results (analyze env cfg))"
  shows "balanced (mm_extras m)"
proof -
  from assms obtain entry where e: "entry \<in> set (accumulate env (project_files env cfg))"
    and m: "m = compose_metrics (weights_of cfg) (alpha_of cfg) entry"
    by (auto simp: set_results unsorted_metrics_def set_object_entries)
  have "all_entries balanced (accumulate env (project_files env cfg))"
    by (rule all_entries_accumulate)
  with e have "balanced (snd entry)"
    by (simp add: all_entries_def list_all_iff)
  then show ?thesis by (simp add: m compose_metrics_def Let_def)
qed

section \<open>The corpus, evaluated\<close>

lemma ex_files:
  "project_files ex_env ex_cfg =
     [ex_a, ex_empty ''/w/src/b.ts'', ex_empty ''/w/src/c.ts'', ex_empty ''/w/src/d.ts'']"
  by (simp add: project_files_def project_held_def is_excluded_def ex_env_def ex_cfg_def
      rel_path_def ex_relative_def ex_empty_def ex_a_def ex_rank_def)

lemma ex_accumulate:
  "accumulate ex_env (project_files ex_env ex_cfg) =
     [(''src/a.ts'', ex_acc_a), (''src/b.ts'', ex_acc_b), (''src/c.ts'', zero_entry),
      (''src/d.ts'', zero_entry)]"
  unfolding ex_files
  by (simp add: accumulate_def init_modulesMap_def first_pass_def second_pass_def
      process_file_def process_call_def resolveCallTargetFile_def collect_def visit_class_def
      visit_method_def visit_function_def rel_path_def ex_env_def ex_relative_def ex_empty_def
      ex_a_def zero_entry_def Let_def regex_test_def outbound_patterns_def match_here_def
      isPublic_def hasModifier_def body_or_empty_def is_external_import_def falsy_def
      inc_total_def inc_internal_def inc_external_def add_incomingInternal_def
      isNodeModuleFile_def sym_in_def backslash_def ex_acc_a_def ex_acc_b_def
      ex_self_call_def ex_cross_call_def ex_external_call_def ex_unresolved_call_def
      ex_excluded_call_def)

lemma no_array_index:
  "\<not> is_array_index (CHR ''s'' # cs)" "\<not> is_array_index (CHR ''/'' # cs)"
  by (simp_all add: is_array_index_def is_digit_def)

lemma ex_unsorted:
  "unsorted_metrics ex_env ex_cfg =
     [ex_metrics_a, ex_metrics_b, ex_metrics_empty ''src/c.ts'', ex_metrics_empty ''src/d.ts'']"
  unfolding unsorted_metrics_def ex_accumulate
  by (simp add: object_entries_def no_array_index compose_metrics_def Let_def rawV_of_def
      rawA_of_def cohesion_of_def weights_of_def alpha_of_def ex_cfg_def spread_weights_def
      spread_key_def DEFAULT_WEIGHTS_def no_overrides_def ex_acc_a_def ex_acc_b_def
      zero_entry_def Number_EPSILON_def Math_pow_def divide_by_def to_double_def
      OVERFLOW_FROM_def UNDERFLOW_UPTO_def ex_metrics_a_def ex_metrics_b_def
      ex_metrics_empty_def power_divide)

lemma ex_results:
  "results (analyze ex_env ex_cfg) =
     [ex_metrics_empty ''src/c.ts'', ex_metrics_empty ''src/d.ts'', ex_metrics_a, ex_metrics_b]"
  unfolding results_analyze ex_unsorted
  by (simp add: array_sort_def compare_s_def js_minus_def is_positive_def s_or_0_def
      OVERFLOW_FROM_def ex_metrics_a_def ex_metrics_b_def ex_metrics_empty_def)

section \<open>The metrics of a module\<close>

lemma weights_of_configured:
  "privateMethod (weights_of cfg) = configured_weight cfg pw_privateMethod privateMethod"
  "internalCall (weights_of cfg) = configured_weight cfg pw_internalCall internalCall"
  "internalType (weights_of cfg) = configured_weight cfg pw_internalType internalType"
  "exportedSymbol (weights_of cfg) = configured_weight cfg pw_exportedSymbol exportedSymbol"
  "publicMethod (weights_of cfg) = configured_weight cfg pw_publicMethod publicMethod"
  "externalImport (weights_of cfg) = configured_weight cfg pw_externalImport externalImport"
  "outgoingCall (weights_of cfg) = configured_weight cfg pw_outgoingCall outgoingCall"
  by (simp_all add: weights_of_def configured_weight_def spread_weights_def spread_key_def
      no_overrides_def split: option.splits)

lemma results_composed:
  assumes "m \<in> set (results (analyze env cfg))"
  obtains entry where "entry \<in> set (accumulate env (project_files env cfg))"
    and "m = compose_metrics (weights_of cfg) (alpha_of cfg) entry"
  using assms by (auto simp: set_results unsorted_metrics_def set_object_entries)

lemma compose_metrics_fields:
  "mm_V (compose_metrics w a entry) = rawV_of w (snd entry)"
  "mm_A (compose_metrics w a entry) = rawA_of w (snd entry)"
  "mm_extras (compose_metrics w a entry) = snd entry"
  "mm_file (compose_metrics w a entry) = fst entry"
  "mm_cohesion (compose_metrics w a entry) = Some (cohesion_of (snd entry))"
  by (simp_all add: compose_metrics_def Let_def)

text \<open>
  Claim C1. For every module of the result, \<open>V\<close> is the private method count times the
  private-method weight, plus the sum of the internal outgoing calls and the incoming
  internal calls times the internal-call weight, plus the internal member count times the
  internal-type weight; \<open>A\<close> is the exported count times the exported-symbol weight, plus
  the public method count times the public-method weight, plus the external import count
  times the external-import weight, plus the outgoing-call heuristic times the
  outgoing-call weight, plus the external outgoing calls times the outgoing-call weight.
  Each weight is the configured override of its category if present and the built-in
  default otherwise.
\<close>

theorem volume_and_area_formula:
  assumes "m \<in> set (results (analyze env cfg))"
  shows "mm_V m =
           real (privateMethodCount (mm_extras m)) * configured_weight cfg pw_privateMethod privateMethod
           + real (callsOut_internal (mm_extras m) + incomingInternal (mm_extras m))
               * configured_weight cfg pw_internalCall internalCall
           + real (internalTypeCount (mm_extras m)) * configured_weight cfg pw_internalType internalType
         \<and> mm_A m =
           real (exportedCount (mm_extras m)) * configured_weight cfg pw_exportedSymbol exportedSymbol
           + real (publicMethodCount (mm_extras m)) * configured_weight cfg pw_publicMethod publicMethod
           + real (externalImports (mm_extras m)) * configured_weight cfg pw_externalImport externalImport
           + real (outgoingCallHeuristic (mm_extras m)) * configured_weight cfg pw_outgoingCall outgoingCall
           + real (callsOut_external (mm_extras m)) * configured_weight cfg pw_outgoingCall outgoingCall"
proof -
  from assms obtain entry where m: "m = compose_metrics (weights_of cfg) (alpha_of cfg) entry"
    by (rule results_composed)
  show ?thesis
    unfolding m compose_metrics_fields rawV_of_def rawA_of_def weights_of_configured
    by simp
qed

text \<open>The module \<^verbatim>\<open>src/a.ts\<close> of the small corpus, under the default weights.\<close>

theorem volume_and_area_formula_witness:
  "ex_metrics_a \<in> set (results (analyze ex_env ex_cfg))
   \<and> mm_V ex_metrics_a = 1 * 1 + (1 + 0) * 1 + 2 * 2
   \<and> mm_A ex_metrics_a = 1 * 3 + 2 * 2 + 1 * 2 + 4 * 2 + 4 * 2"
proof -
  have h: "ex_metrics_a \<in> set (results (analyze ex_env ex_cfg))"
    by (simp add: ex_results)
  show ?thesis
    using h volume_and_area_formula [OF h]
    by (simp add: ex_metrics_a_def)
qed

text \<open>
  Claim C3. For every module of the result, the cohesion lies in the closed interval from
  0 to 1; it is 1 when the module has no outgoing call, and the internal outgoing calls
  divided by all outgoing calls otherwise.
\<close>

theorem cohesion_in_unit_interval:
  assumes "m \<in> set (results (analyze env cfg))"
  shows "\<exists>c. mm_cohesion m = Some c \<and> 0 \<le> c \<and> c \<le> 1
           \<and> (callsOut_total (mm_extras m) = 0 \<longrightarrow> c = 1)
           \<and> (callsOut_total (mm_extras m) \<noteq> 0 \<longrightarrow>
                c = real (callsOut_internal (mm_extras m)) / real (callsOut_total (mm_extras m)))"
proof -
  from assms obtain entry where m: "m = compose_metrics (weights_of cfg) (alpha_of cfg) entry"
    by (rule results_composed)
  from assms have "balanced (mm_extras m)"
    by (rule results_extras_balanced)
  then have le: "callsOut_internal (snd entry) \<le> callsOut_total (snd entry)"
    by (simp add: balanced_def m compose_metrics_fields)
  have "0 \<le> cohesion_of (snd entry)" "cohesion_of (snd entry) \<le> 1"
    using le by (simp_all add: cohesion_of_def divide_le_eq)
  then show ?thesis
    by (simp add: m compose_metrics_fields cohesion_of_def)
qed

text \<open>A module with five calls, one of them internal, and a module without calls.\<close>

theorem cohesion_in_unit_interval_witness:
  "ex_metrics_a \<in> set (results (analyze ex_env ex_cfg))
   \<and> ex_metrics_b \<in> set (results (analyze ex_env ex_cfg))
   \<and> mm_cohesion ex_metrics_a = Some (1 / 5) \<and> mm_cohesion ex_metrics_b = Some 1"
proof -
  have a: "ex_metrics_a \<in> set (results (analyze ex_env ex_cfg))"
    and b: "ex_metrics_b \<in> set (results (analyze ex_env ex_cfg))"
    by (simp_all add: ex_results)
  show ?thesis
    using a b cohesion_in_unit_interval [OF a] cohesion_in_unit_interval [OF b]
    by (simp add: ex_metrics_a_def ex_metrics_b_def ex_acc_a_def ex_acc_b_def zero_entry_def)
qed

text \<open>
  Claim C10. For every module of the result, the counter \<open>incomingExternal\<close> of the
  extras record is 0: it starts at zero and no pass changes it.
\<close>

theorem incomingExternal_always_zero:
  assumes "m \<in> set (results (analyze env cfg))"
  shows "incomingExternal (mm_extras m) = 0"
  using results_extras_balanced [OF assms] by (simp add: balanced_def)

text \<open>The module \<^verbatim>\<open>src/b.ts\<close>, the target of a call from another module.\<close>

theorem incomingExternal_always_zero_witness:
  "ex_metrics_b \<in> set (results (analyze ex_env ex_cfg))
   \<and> incomingExternal (mm_extras ex_metrics_b) = 0"
proof -
  have h: "ex_metrics_b \<in> set (results (analyze ex_env ex_cfg))"
    by (simp add: ex_results)
  show ?thesis
    using h incomingExternal_always_zero [OF h] by simp
qed

section \<open>One call of the resolver pass\<close>

text \<open>The loop body, by the class of the call.\<close>

lemma process_call_by_kind:
  "process_call env callerFile mm call =
     (case call_kind env callerFile call of
        SelfInternal \<Rightarrow>
          AList.map_entry callerFile (add_incomingInternal 0 \<circ> (inc_internal \<circ> inc_total)) mm
      | CrossModule t \<Rightarrow>
          (case map_of mm t of
             Some _ \<Rightarrow> AList.map_entry t (add_incomingInternal 1)
                         (AList.map_entry callerFile (inc_external \<circ> inc_total) mm)
           | None \<Rightarrow> AList.map_entry callerFile (inc_external \<circ> inc_total) mm)
      | TrueExternal \<Rightarrow> AList.map_entry callerFile (inc_external \<circ> inc_total) mm
      | Unresolved \<Rightarrow> AList.map_entry callerFile (inc_external \<circ> inc_total) mm)"
  unfolding process_call_def call_kind_def classify_def Let_def map_entry_twice comp_assoc
  by (auto simp: falsy_def AList.map_of_map_entry split: option.splits)

lemma cross_not_caller: "call_kind env callerFile call = CrossModule t \<Longrightarrow> t \<noteq> callerFile"
  by (auto simp: call_kind_def classify_def split: option.splits if_splits)

lemma lookup_process_call_caller:
  assumes "map_of mm callerFile = Some e"
  shows "map_of (process_call env callerFile mm call) callerFile =
     Some (case call_kind env callerFile call of
             SelfInternal \<Rightarrow> e\<lparr>callsOut_total := callsOut_total e + 1,
                                callsOut_internal := callsOut_internal e + 1\<rparr>
           | _ \<Rightarrow> e\<lparr>callsOut_total := callsOut_total e + 1,
                     callsOut_external := callsOut_external e + 1\<rparr>)"
  using assms
  by (auto simp: process_call_by_kind AList.map_of_map_entry inc_total_def inc_internal_def
      inc_external_def add_incomingInternal_def dest: cross_not_caller
      split: CallKind.splits option.splits)

lemma lookup_process_call_other:
  assumes "k \<noteq> callerFile"
  shows "map_of (process_call env callerFile mm call) k =
     (if call_kind env callerFile call = CrossModule k
      then map_option (add_incomingInternal 1) (map_of mm k)
      else map_of mm k)"
  using assms
  by (auto simp: process_call_by_kind AList.map_of_map_entry 
      split: CallKind.splits option.splits)


lemma ex_kinds:
  "call_kind ex_env ''src/a.ts'' ex_self_call = SelfInternal"
  "call_kind ex_env ''src/a.ts'' ex_cross_call = CrossModule ''src/b.ts''"
  "call_kind ex_env ''src/a.ts'' ex_external_call = TrueExternal"
  "call_kind ex_env ''src/a.ts'' ex_unresolved_call = Unresolved"
  "call_kind ex_env ''src/a.ts'' ex_excluded_call = CrossModule ''src/gen.ts''"
  by (simp_all add: call_kind_def classify_def resolveCallTargetFile_def ex_env_def
      ex_relative_def ex_self_call_def ex_cross_call_def ex_external_call_def
      ex_unresolved_call_def ex_excluded_call_def sym_in_def isNodeModuleFile_def backslash_def)


text \<open>
  The loop finds a self-call where the resolved value is the path of the caller; the
  guards before the comparison take a value that is the marker \<^verbatim>\<open>'external'\<close> or empty.
\<close>

lemma self_call_iff:
  "call_kind env callerFile call = SelfInternal \<longleftrightarrow>
     resolveCallTargetFile (relative env) call = Some callerFile
     \<and> callerFile \<noteq> ''external'' \<and> callerFile \<noteq> []"
  by (auto simp: call_kind_def classify_def split: option.splits)


text \<open>
  Claim C6. Processing a self-call, a call that the loop finds to resolve to the path of
  the caller, increments only the \<open>callsOut_internal\<close> and the \<open>callsOut_total\<close> of the
  caller; every other counter and every other module stays as it is, and no
  \<open>incomingInternal\<close> changes, that of the caller included.
\<close>

theorem self_call_touches_only_the_caller:
  assumes "map_of mm callerFile = Some e"
    and "call_kind env callerFile call = SelfInternal"
  shows "map_of (process_call env callerFile mm call) =
           (map_of mm)(callerFile \<mapsto> e\<lparr>callsOut_total := callsOut_total e + 1,
                                       callsOut_internal := callsOut_internal e + 1\<rparr>)
     \<and> (\<forall>k. map_option incomingInternal (map_of (process_call env callerFile mm call) k)
              = map_option incomingInternal (map_of mm k))"
proof -
  have eq: "map_of (process_call env callerFile mm call) k =
           ((map_of mm)(callerFile \<mapsto> e\<lparr>callsOut_total := callsOut_total e + 1,
                                       callsOut_internal := callsOut_internal e + 1\<rparr>)) k" for k
  proof (cases "k = callerFile")
    case True
    then show ?thesis using assms by (simp add: lookup_process_call_caller)
  next
    case False
    then show ?thesis using assms(2) by (simp add: lookup_process_call_other)
  qed
  then have 1: "map_of (process_call env callerFile mm call) =
           (map_of mm)(callerFile \<mapsto> e\<lparr>callsOut_total := callsOut_total e + 1,
                                       callsOut_internal := callsOut_internal e + 1\<rparr>)"
    by (rule ext)
  show ?thesis
    unfolding 1 using assms(1) by auto
qed

text \<open>The call of \<^verbatim>\<open>src/a.ts\<close> to itself.\<close>

theorem self_call_touches_only_the_caller_witness:
  "map_of [(''src/a.ts'', zero_entry), (''src/b.ts'', zero_entry)] ''src/a.ts'' = Some zero_entry
   \<and> call_kind ex_env ''src/a.ts'' ex_self_call = SelfInternal
   \<and> map_of (process_call ex_env ''src/a.ts''
               [(''src/a.ts'', zero_entry), (''src/b.ts'', zero_entry)] ex_self_call)
       = [''src/a.ts'' \<mapsto> zero_entry\<lparr>callsOut_total := 1, callsOut_internal := 1\<rparr>,
          ''src/b.ts'' \<mapsto> zero_entry]"
proof -
  let ?mm = "[(''src/a.ts'', zero_entry), (''src/b.ts'', zero_entry)]"
  have a: "map_of ?mm ''src/a.ts'' = Some zero_entry"
    by simp
  have k: "call_kind ex_env ''src/a.ts'' ex_self_call = SelfInternal"
    by (rule ex_kinds)
  show ?thesis
    using a k self_call_touches_only_the_caller [OF a k]
    by (auto simp: zero_entry_def)
qed

text \<open>
  Claim C9. After the resolver pass, \<open>callsOut_internal + callsOut_external =
  callsOut_total\<close> holds for every module; each processed call increments the caller's
  \<open>callsOut_total\<close> once and exactly one of \<open>callsOut_internal\<close> and \<open>callsOut_external\<close>
  once.
\<close>

theorem partition_of_outgoing_calls:
  "(\<forall>m \<in> set (results (analyze env cfg)).
      callsOut_internal (mm_extras m) + callsOut_external (mm_extras m)
        = callsOut_total (mm_extras m))
   \<and> (\<forall>callerFile mm call e. map_of mm callerFile = Some e \<longrightarrow>
        (\<exists>e'. map_of (process_call env callerFile mm call) callerFile = Some e'
           \<and> callsOut_total e' = callsOut_total e + 1
           \<and> (callsOut_internal e' = callsOut_internal e + 1
                \<and> callsOut_external e' = callsOut_external e
              \<or> callsOut_internal e' = callsOut_internal e
                \<and> callsOut_external e' = callsOut_external e + 1)))"
proof (intro conjI ballI allI impI)
  fix m assume "m \<in> set (results (analyze env cfg))"
  then have "balanced (mm_extras m)" by (rule results_extras_balanced)
  then show "callsOut_internal (mm_extras m) + callsOut_external (mm_extras m)
        = callsOut_total (mm_extras m)"
    by (simp add: balanced_def)
next
  fix callerFile :: string and mm :: ModulesMap and call :: CallExpression and e :: Accumulator
  assume "map_of mm callerFile = Some e"
  then show "\<exists>e'. map_of (process_call env callerFile mm call) callerFile = Some e'
           \<and> callsOut_total e' = callsOut_total e + 1
           \<and> (callsOut_internal e' = callsOut_internal e + 1
                \<and> callsOut_external e' = callsOut_external e
              \<or> callsOut_internal e' = callsOut_internal e
                \<and> callsOut_external e' = callsOut_external e + 1)"
    by (simp add: lookup_process_call_caller split: CallKind.splits)
qed


text \<open>The five calls of \<^verbatim>\<open>src/a.ts\<close>, and one call on a fresh accumulator.\<close>

theorem partition_of_outgoing_calls_witness:
  "ex_metrics_a \<in> set (results (analyze ex_env ex_cfg))
   \<and> callsOut_internal (mm_extras ex_metrics_a) + callsOut_external (mm_extras ex_metrics_a)
       = callsOut_total (mm_extras ex_metrics_a)
   \<and> callsOut_total (mm_extras ex_metrics_a) = 5
   \<and> map_of [(''src/a.ts'', zero_entry)] ''src/a.ts'' = Some zero_entry
   \<and> (\<exists>e'. map_of (process_call ex_env ''src/a.ts'' [(''src/a.ts'', zero_entry)] ex_cross_call)
             ''src/a.ts'' = Some e'
          \<and> callsOut_total e' = 1)"
proof -
  have h: "ex_metrics_a \<in> set (results (analyze ex_env ex_cfg))"
    by (simp add: ex_results)
  have l: "map_of [(''src/a.ts'', zero_entry)] ''src/a.ts'' = Some zero_entry"
    by simp
  note c9 = partition_of_outgoing_calls [of ex_env ex_cfg]
  from c9 h have 1: "callsOut_internal (mm_extras ex_metrics_a)
       + callsOut_external (mm_extras ex_metrics_a) = callsOut_total (mm_extras ex_metrics_a)"
    by blast
  from c9 l have 2: "\<exists>e'. map_of (process_call ex_env ''src/a.ts'' [(''src/a.ts'', zero_entry)]
        ex_cross_call) ''src/a.ts'' = Some e' \<and> callsOut_total e' = callsOut_total zero_entry + 1"
    by blast
  have 3: "callsOut_total (mm_extras ex_metrics_a) = 5"
    by (simp add: ex_metrics_a_def ex_acc_a_def)
  from 2 have "\<exists>e'. map_of (process_call ex_env ''src/a.ts'' [(''src/a.ts'', zero_entry)]
        ex_cross_call) ''src/a.ts'' = Some e' \<and> callsOut_total e' = 1"
    by (simp add: zero_entry_def)
  with h 1 3 l show ?thesis by blast
qed

section \<open>The keys of the accumulators\<close>

lemma first_occurrences_snoc:
  "rev (remdups (rev (xs @ [x]))) =
     (if x \<in> set xs then rev (remdups (rev xs)) else rev (remdups (rev xs)) @ [x])"
  by simp

lemma keys_init_modulesMap:
  "map fst (init_modulesMap env sfs) = rev (remdups (rev (map (rel_path env) sfs)))"
proof (induction sfs rule: rev_induct)
  case Nil
  show ?case by (simp add: init_modulesMap_def)
next
  case (snoc sf sfs)
  have "map fst (init_modulesMap env (sfs @ [sf])) =
          map fst (AList.update (rel_path env sf) zero_entry (init_modulesMap env sfs))"
    by (simp add: init_modulesMap_def)
  also have "\<dots> = (if rel_path env sf \<in> set (map fst (init_modulesMap env sfs))
                    then map fst (init_modulesMap env sfs)
                    else map fst (init_modulesMap env sfs) @ [rel_path env sf])"
    by (simp add: AList.update_keys)
  also have "\<dots> = rev (remdups (rev (map (rel_path env) (sfs @ [sf]))))"
    unfolding snoc.IH by simp
  finally show ?case .
qed

lemma keys_first_pass: "map fst (first_pass env sfs mm) = map fst mm"
  unfolding first_pass_def
  by (induction sfs arbitrary: mm) (simp_all add: map_entry_keys)

lemma keys_process_call: "map fst (process_call env callerFile mm call) = map fst mm"
  by (simp add: process_call_def Let_def map_entry_keys split: option.splits)

lemma keys_second_pass: "map fst (second_pass env sfs mm) = map fst mm"
proof -
  have calls: "map fst (foldl (process_call env c) mm cs) = map fst mm" for c mm cs
    by (induction cs arbitrary: mm) (simp_all add: keys_process_call)
  show ?thesis
    unfolding second_pass_def
    by (induction sfs arbitrary: mm) (simp_all add: process_file_def calls)
qed

text \<open>
  Every source file of the project has its accumulator when the resolver pass starts, and
  a step of the pass keeps the keys: the caller of a processed call always has an entry.
\<close>

lemma caller_has_entry:
  assumes "sf \<in> set sfs"
  shows "map_of (first_pass env sfs (init_modulesMap env sfs)) (rel_path env sf) \<noteq> None"
proof -
  have "rel_path env sf \<in> set (map fst (first_pass env sfs (init_modulesMap env sfs)))"
    using assms by (simp add: keys_first_pass keys_init_modulesMap)
  then show ?thesis
    by (simp add: map_of_eq_None_iff)
qed

lemma process_call_keeps_entries:
  "map_of (process_call env callerFile mm call) k \<noteq> None \<longleftrightarrow> map_of mm k \<noteq> None"
proof -
  have "fst ` set (process_call env callerFile mm call) = fst ` set mm"
    using keys_process_call [of env callerFile mm call]
    by (metis set_map)
  then show ?thesis
    by (simp add: map_of_eq_None_iff)
qed

section \<open>The outbound-call patterns\<close>

text \<open>
  No occurrence of a pattern starts inside an occurrence of a pattern, so the matches that
  the global regular expression finds from left to right are all the occurrences.
\<close>

lemma occurs_at_Suc: "occurs_at (c # cs) (Suc i) = occurs_at cs i"
  by (simp add: occurs_at_def)

lemma occurs_at_0: "occurs_at t 0 \<longleftrightarrow> match_here t \<noteq> None"
  by (auto simp: occurs_at_def match_here_def find_None_iff list_ex_iff)

lemma occurrences_Cons:
  "occurrences (c # cs) = (if match_here (c # cs) = None then 0 else 1) + occurrences cs"
proof -
  have "[0..<length (c # cs)] = 0 # map Suc [0..<length cs]"
    by (simp add: upt_conv_Cons map_Suc_upt del: upt_Suc)
  then have "filter (occurs_at (c # cs)) [0..<length (c # cs)] =
      (if occurs_at (c # cs) 0 then [0] else [])
      @ map Suc (filter (occurs_at cs) [0..<length cs])"
    by (simp add: filter_map comp_def occurs_at_Suc)
  then show ?thesis
    by (simp add: occurrences_def occurs_at_0)
qed

lemma occurrences_drop:
  "\<forall>i<n. \<not> occurs_at cs i \<Longrightarrow> occurrences (drop n cs) = occurrences cs"
proof (induction n arbitrary: cs)
  case 0
  show ?case by simp
next
  case (Suc n)
  show ?case
  proof (cases cs)
    case Nil
    then show ?thesis by simp
  next
    case (Cons c cs')
    from Suc.prems have "\<not> occurs_at cs 0" by blast
    then have none: "match_here (c # cs') = None"
      by (simp add: Cons occurs_at_0)
    have "\<forall>i<n. \<not> occurs_at cs' i"
    proof (intro allI impI)
      fix i assume "i < n"
      then have "\<not> occurs_at cs (Suc i)" using Suc.prems by simp
      then show "\<not> occurs_at cs' i" by (simp add: Cons occurs_at_Suc)
    qed
    then have "occurrences (drop n cs') = occurrences cs'"
      by (rule Suc.IH)
    then show ?thesis
      by (simp add: Cons occurrences_Cons none)
  qed
qed

lemma below_13:
  "i < 13 \<Longrightarrow> i = 0 \<or> i = 1 \<or> i = 2 \<or> i = 3 \<or> i = 4 \<or> i = 5 \<or> i = 6 \<or> i = 7 \<or> i = 8 \<or> i = 9
     \<or> i = 10 \<or> i = 11 \<or> i = (12::nat)"
  by arith

lemma no_overlap_fetch: "i < 5 \<Longrightarrow> \<not> occurs_at (''etch('' @ r) i"
proof -
  assume "i < 5"
  then have "i = 0 \<or> i = 1 \<or> i = 2 \<or> i = 3 \<or> i = 4" by arith
  then show ?thesis
    by (elim disjE) (simp_all add: occurs_at_def outbound_patterns_def)
qed

lemma no_overlap_axios: "i < 5 \<Longrightarrow> \<not> occurs_at (''xios.'' @ r) i"
proof -
  assume "i < 5"
  then have "i = 0 \<or> i = 1 \<or> i = 2 \<or> i = 3 \<or> i = 4" by arith
  then show ?thesis
    by (elim disjE) (simp_all add: occurs_at_def outbound_patterns_def)
qed

lemma no_overlap_http: "i < 11 \<Longrightarrow> \<not> occurs_at (''ttp.request'' @ r) i"
proof -
  assume "i < 11"
  then have "i = 0 \<or> i = 1 \<or> i = 2 \<or> i = 3 \<or> i = 4 \<or> i = 5 \<or> i = 6 \<or> i = 7 \<or> i = 8 \<or> i = 9
     \<or> i = 10" by arith
  then show ?thesis
    by (elim disjE) (simp_all add: occurs_at_def outbound_patterns_def)
qed

lemma no_overlap_xhr: "i < 13 \<Longrightarrow> \<not> occurs_at (''MLHttpRequest'' @ r) i"
proof -
  assume "i < 13"
  then have "i = 0 \<or> i = 1 \<or> i = 2 \<or> i = 3 \<or> i = 4 \<or> i = 5 \<or> i = 6 \<or> i = 7 \<or> i = 8 \<or> i = 9
     \<or> i = 10 \<or> i = 11 \<or> i = 12" by (rule below_13)
  then show ?thesis
    by (elim disjE) (simp_all add: occurs_at_def outbound_patterns_def)
qed

lemma no_overlap:
  assumes "match_here (c # cs) = Some p"
  shows "\<forall>i < length p - 1. \<not> occurs_at cs i"
proof -
  from assms have p: "p \<in> set outbound_patterns" and pre: "prefix p (c # cs)"
    by (auto simp: match_here_def find_Some_iff)
  from pre obtain r where r: "c # cs = p @ r"
    by (auto simp: prefix_def)
  from p consider "p = ''fetch(''" | "p = ''axios.''" | "p = ''http.request''"
    | "p = ''XMLHttpRequest''"
    by (auto simp: outbound_patterns_def)
  then show ?thesis
  proof cases
    case 1
    with r have cs: "cs = ''etch('' @ r" by simp
    have len: "length p - 1 = 5" by (simp add: 1)
    show ?thesis unfolding len cs using no_overlap_fetch by blast
  next
    case 2
    with r have cs: "cs = ''xios.'' @ r" by simp
    have len: "length p - 1 = 5" by (simp add: 2)
    show ?thesis unfolding len cs using no_overlap_axios by blast
  next
    case 3
    with r have cs: "cs = ''ttp.request'' @ r" by simp
    have len: "length p - 1 = 11" by (simp add: 3)
    show ?thesis unfolding len cs using no_overlap_http by blast
  next
    case 4
    with r have cs: "cs = ''MLHttpRequest'' @ r" by simp
    have len: "length p - 1 = 13" by (simp add: 4)
    show ?thesis unfolding len cs using no_overlap_xhr by blast
  qed
qed

lemma match_count_occurrences: "match_count t = occurrences t"
proof (induction t rule: match_count.induct)
  case 1
  show ?case by (simp add: occurrences_def)
next
  case (2 c cs)
  show ?case
  proof (cases "match_here (c # cs)")
    case None
    with 2 show ?thesis by (simp add: occurrences_Cons)
  next
    case (Some p)
    then have "\<forall>i < length p - 1. \<not> occurs_at cs i" by (rule no_overlap)
    then have "occurrences (drop (length p - 1) cs) = occurrences cs"
      by (rule occurrences_drop)
    with 2 Some show ?thesis by (simp add: occurrences_Cons)
  qed
qed

lemma regex_test_occurrences: "regex_test b \<longleftrightarrow> 0 < occurrences b"
proof (induction b)
  case Nil
  show ?case by (simp add: regex_test_def outbound_patterns_def occurrences_def)
next
  case (Cons c cs)
  have "regex_test (c # cs) \<longleftrightarrow> match_here (c # cs) \<noteq> None \<or> regex_test cs"
    by (auto simp: regex_test_def match_here_def find_None_iff list_ex_iff)
  then show ?case
    by (simp add: Cons.IH occurrences_Cons)
qed

section \<open>The outgoing-call heuristic\<close>

lemma heuristic_visit_methods:
  "outgoingCallHeuristic (foldl visit_method m ms) =
     outgoingCallHeuristic m
     + length (filter regex_test (map (\<lambda>mth. body_or_empty (mth_bodyText mth)) ms))"
  by (induction ms arbitrary: m) (simp_all add: visit_method_def Let_def)

lemma heuristic_visit_classes:
  "outgoingCallHeuristic (foldl visit_class m cs) =
     outgoingCallHeuristic m
     + length (filter regex_test
         (map (\<lambda>mth. body_or_empty (mth_bodyText mth)) (concat (map cls_methods cs))))"
  by (induction cs arbitrary: m) (simp_all add: visit_class_def Let_def heuristic_visit_methods)

lemma heuristic_visit_functions:
  "outgoingCallHeuristic (foldl visit_function m fs) =
     outgoingCallHeuristic m
     + length (filter regex_test (map (\<lambda>fn. body_or_empty (fn_bodyText fn)) fs))"
  by (induction fs arbitrary: m) (simp_all add: visit_function_def Let_def)

lemma heuristic_collect:
  "outgoingCallHeuristic (collect sf m) =
     outgoingCallHeuristic m + length (filter regex_test (scanned_bodies sf))
     + match_count (sf_fullText sf)"
  by (simp add: collect_def Let_def heuristic_visit_functions heuristic_visit_classes
      scanned_bodies_def)

lemma lookup_init_modulesMap:
  "map_of (init_modulesMap env sfs) k =
     (if k \<in> rel_path env ` set sfs then Some zero_entry else None)"
proof (induction sfs rule: rev_induct)
  case Nil
  show ?case by (simp add: init_modulesMap_def)
next
  case (snoc sf sfs)
  have "init_modulesMap env (sfs @ [sf]) =
          AList.update (rel_path env sf) zero_entry (init_modulesMap env sfs)"
    by (simp add: init_modulesMap_def)
  then show ?case
    by (simp add: AList.update_conv' snoc.IH)
qed

lemma lookup_first_pass_other:
  "k \<notin> rel_path env ` set sfs \<Longrightarrow> map_of (first_pass env sfs mm) k = map_of mm k"
  unfolding first_pass_def
  by (induction sfs arbitrary: mm) (simp_all add: AList.map_of_map_entry)

lemma lookup_first_pass:
  assumes "sf \<in> set sfs" and "distinct (map (rel_path env) sfs)"
  shows "map_of (first_pass env sfs mm) (rel_path env sf) =
           map_option (collect sf) (map_of mm (rel_path env sf))"
  using assms
proof (induction sfs arbitrary: mm)
  case Nil
  then show ?case by simp
next
  case (Cons x xs)
  have step: "first_pass env (x # xs) mm =
      first_pass env xs (AList.map_entry (rel_path env x) (collect x) mm)"
    by (simp add: first_pass_def)
  show ?case
  proof (cases "sf = x")
    case True
    with Cons.prems have "rel_path env sf \<notin> rel_path env ` set xs" by auto
    then show ?thesis
      unfolding step
      by (simp add: lookup_first_pass_other AList.map_of_map_entry True map_option_case)
  next
    case False
    with Cons.prems have in_xs: "sf \<in> set xs" and d: "distinct (map (rel_path env) xs)"
      and nin: "rel_path env x \<notin> rel_path env ` set xs"
      by auto
    from in_xs have "rel_path env sf \<in> rel_path env ` set xs" by (rule imageI)
    with nin have ne: "rel_path env sf \<noteq> rel_path env x" by metis
    show ?thesis
      unfolding step using ne
      by (simp add: Cons.IH [OF in_xs d] AList.map_of_map_entry)
  qed
qed

lemma heuristic_process_call:
  "map_option outgoingCallHeuristic (map_of (process_call env callerFile mm call) k) =
     map_option outgoingCallHeuristic (map_of mm k)"
  by (auto simp: process_call_by_kind AList.map_of_map_entry inc_total_def inc_internal_def
      inc_external_def add_incomingInternal_def split: CallKind.splits option.splits)

lemma heuristic_second_pass:
  "map_option outgoingCallHeuristic (map_of (second_pass env sfs mm) k) =
     map_option outgoingCallHeuristic (map_of mm k)"
proof -
  have calls: "map_option outgoingCallHeuristic (map_of (foldl (process_call env c) mm cs) k) =
     map_option outgoingCallHeuristic (map_of mm k)" for c mm cs
    by (induction cs arbitrary: mm) (simp_all add: heuristic_process_call)
  show ?thesis
    unfolding second_pass_def
    by (induction sfs arbitrary: mm) (simp_all add: process_file_def calls)
qed

lemma regex_test_eq: "regex_test = (\<lambda>b. 0 < occurrences b)"
  by (rule ext) (rule regex_test_occurrences)

lemma heuristic_accumulate:
  assumes "sf \<in> set sfs" and "distinct (map (rel_path env) sfs)"
  shows "map_option outgoingCallHeuristic (map_of (accumulate env sfs) (rel_path env sf)) =
     Some (length (filter (\<lambda>b. 0 < occurrences b) (scanned_bodies sf))
           + occurrences (sf_fullText sf))"
proof -
  have "map_of (first_pass env sfs (init_modulesMap env sfs)) (rel_path env sf) =
      Some (collect sf zero_entry)"
    using assms by (simp add: lookup_first_pass lookup_init_modulesMap)
  then show ?thesis
    by (simp add: accumulate_def heuristic_second_pass heuristic_collect zero_entry_def
        match_count_occurrences regex_test_eq)
qed

lemma distinct_keys_accumulate:
  "distinct (map fst (accumulate env sfs))"
  by (simp add: accumulate_def keys_second_pass keys_first_pass keys_init_modulesMap)

text \<open>
  Claim C8. The final \<open>outgoingCallHeuristic\<close> of a module is the number of method and
  function bodies of the module that contain at least one of the outbound-call patterns,
  plus the number of occurrences of the patterns in the whole raw text of the module: what
  sits in a scanned body and in the raw text is counted twice.
\<close>

theorem outgoing_heuristic_counts_twice:
  assumes "sf \<in> set (project_files env cfg)"
    and "distinct (map (rel_path env) (project_files env cfg))"
  shows "(\<exists>m \<in> set (results (analyze env cfg)). mm_file m = rel_path env sf)
     \<and> (\<forall>m \<in> set (results (analyze env cfg)). mm_file m = rel_path env sf \<longrightarrow>
          outgoingCallHeuristic (mm_extras m) =
            length (filter (\<lambda>body. 0 < occurrences body) (scanned_bodies sf))
            + occurrences (sf_fullText sf))"
proof -
  let ?acc = "accumulate env (project_files env cfg)"
  let ?n = "length (filter (\<lambda>body. 0 < occurrences body) (scanned_bodies sf))
            + occurrences (sf_fullText sf)"
  from assms have h: "map_option outgoingCallHeuristic (map_of ?acc (rel_path env sf)) = Some ?n"
    by (rule heuristic_accumulate)
  then obtain d where d: "map_of ?acc (rel_path env sf) = Some d" and n: "outgoingCallHeuristic d = ?n"
    by auto
  from d have mem: "(rel_path env sf, d) \<in> set ?acc"
    by (rule map_of_SomeD)
  have ex: "\<exists>m \<in> set (results (analyze env cfg)). mm_file m = rel_path env sf"
    unfolding set_results unsorted_metrics_def using mem
    by (force simp: compose_metrics_def Let_def set_object_entries)
  have all: "outgoingCallHeuristic (mm_extras m) = ?n"
    if "m \<in> set (results (analyze env cfg))" "mm_file m = rel_path env sf" for m
  proof -
    from that(1) obtain entry where e: "entry \<in> set ?acc"
      and m: "m = compose_metrics (weights_of cfg) (alpha_of cfg) entry"
      by (rule results_composed)
    from that(2) have "fst entry = rel_path env sf"
      by (simp add: m compose_metrics_fields)
    with e have "(rel_path env sf, snd entry) \<in> set ?acc"
      by (metis prod.collapse)
    with distinct_keys_accumulate have "map_of ?acc (rel_path env sf) = Some (snd entry)"
      by simp
    with d n show ?thesis
      by (simp add: m compose_metrics_fields)
  qed
  from ex all show ?thesis by blast
qed

text \<open>
  In \<^verbatim>\<open>src/a.ts\<close> two bodies hold a pattern and the raw text holds two occurrences.
\<close>

theorem outgoing_heuristic_counts_twice_witness:
  "ex_a \<in> set (project_files ex_env ex_cfg)
   \<and> distinct (map (rel_path ex_env) (project_files ex_env ex_cfg))
   \<and> ex_metrics_a \<in> set (results (analyze ex_env ex_cfg))
   \<and> mm_file ex_metrics_a = rel_path ex_env ex_a
   \<and> outgoingCallHeuristic (mm_extras ex_metrics_a) =
        length (filter (\<lambda>body. 0 < occurrences body) (scanned_bodies ex_a))
        + occurrences (sf_fullText ex_a)
   \<and> outgoingCallHeuristic (mm_extras ex_metrics_a) = 2 + 2"
proof -
  have a: "ex_a \<in> set (project_files ex_env ex_cfg)"
    by (simp add: ex_files)
  have d: "distinct (map (rel_path ex_env) (project_files ex_env ex_cfg))"
    unfolding ex_files
    by (simp add: rel_path_def ex_env_def ex_relative_def ex_empty_def ex_a_def)
  have m: "ex_metrics_a \<in> set (results (analyze ex_env ex_cfg))"
    by (simp add: ex_results)
  have f: "mm_file ex_metrics_a = rel_path ex_env ex_a"
    by (simp add: ex_metrics_a_def rel_path_def ex_env_def ex_relative_def ex_a_def)
  from outgoing_heuristic_counts_twice [OF a d] m f
  have "outgoingCallHeuristic (mm_extras ex_metrics_a) =
        length (filter (\<lambda>body. 0 < occurrences body) (scanned_bodies ex_a))
        + occurrences (sf_fullText ex_a)"
    by blast
  moreover have "outgoingCallHeuristic (mm_extras ex_metrics_a) = 2 + 2"
    by (simp add: ex_metrics_a_def ex_acc_a_def)
  ultimately show ?thesis using a d m f by blast
qed

section \<open>The fallback for member accesses\<close>

lemma first_declaration_file_None:
  "first_declaration_file rel ds = None \<longleftrightarrow> (\<forall>d \<in> set ds. getSourceFilePath d = None)"
  by (induction ds) (auto split: option.splits)

text \<open>
  What the code does for a member access without a symbol: it asks the object expression
  of the access, one step to the left, whatever that expression is.
\<close>

lemma fallback_is_object_expression:
  "resolveCallTargetFile rel (CallExpression (PropertyAccessExpression obj None)) =
     (case getSymbol obj of
        None \<Rightarrow> None
      | Some s \<Rightarrow> first_declaration_file rel (getDeclarations s))"
  by (auto simp: resolveCallTargetFile_def Let_def split: option.splits)

text \<open>
  The claim as it is written fails twice. For \<^verbatim>\<open>a.b.c()\<close> the left-most sub-expression
  \<open>a\<close> has a symbol, yet the call is unresolved, since the code asks \<^verbatim>\<open>a.b\<close>. And a call
  is unresolved although the fallback yields a symbol, when that symbol has no
  declarations.
\<close>

theorem leftmost_fallback_counterexample:
  "getSymbol (getExpression ex_chain_call) = None
   \<and> getSymbol (spec_leftmost (getExpression ex_chain_call)) = Some (sym_in ''/w/src/b.ts'')
   \<and> resolveCallTargetFile (relative ex_env) ex_chain_call = None
   \<and> call_kind ex_env ''src/a.ts'' ex_chain_call = Unresolved
   \<and> getSymbol (getExpression ex_nodecl_call) = None
   \<and> getSymbol (spec_leftmost (getExpression ex_nodecl_call)) = Some (Symbol [])
   \<and> resolveCallTargetFile (relative ex_env) ex_nodecl_call = None
   \<and> call_kind ex_env ''src/a.ts'' ex_nodecl_call = Unresolved"
  by (simp add: ex_chain_call_def ex_nodecl_call_def call_kind_def classify_def
      resolveCallTargetFile_def sym_in_def)

text \<open>
  Claim C7, amended. For a call whose callee is a member access \<^verbatim>\<open>a.b(...)\<close> without a
  symbol of its own, where \<open>a\<close> is not itself a member access, the resolver falls back to
  the symbol of the left-most sub-expression \<open>a\<close>; it reports no target, and the call is
  then unresolved, exactly when that fallback yields no symbol or a symbol none of whose
  declarations has a source file.
\<close>

theorem member_access_fallback:
  assumes "getExpression call = PropertyAccessExpression obj None"
    and "spec_leftmost obj = obj"
  shows "resolveCallTargetFile (relative env) call =
           (case getSymbol (spec_leftmost (getExpression call)) of
              None \<Rightarrow> None
            | Some s \<Rightarrow> first_declaration_file (relative env) (getDeclarations s))
     \<and> (resolveCallTargetFile (relative env) call = None \<longleftrightarrow>
          getSymbol (spec_leftmost (getExpression call)) = None
          \<or> (\<exists>s. getSymbol (spec_leftmost (getExpression call)) = Some s
                \<and> (\<forall>d \<in> set (getDeclarations s). getSourceFilePath d = None)))
     \<and> (resolveCallTargetFile (relative env) call = None \<longrightarrow>
          call_kind env callerFile call = Unresolved)"
proof -
  have left: "spec_leftmost (getExpression call) = obj"
    using assms by simp
  have res: "resolveCallTargetFile (relative env) call =
           (case getSymbol obj of
              None \<Rightarrow> None
            | Some s \<Rightarrow> first_declaration_file (relative env) (getDeclarations s))"
    using assms(1) by (auto simp: resolveCallTargetFile_def Let_def split: option.splits)
  have iff: "resolveCallTargetFile (relative env) call = None \<longleftrightarrow>
          getSymbol obj = None
          \<or> (\<exists>s. getSymbol obj = Some s \<and> (\<forall>d \<in> set (getDeclarations s). getSourceFilePath d = None))"
    unfolding res by (cases "getSymbol obj") (simp_all add: first_declaration_file_None)
  have unres: "resolveCallTargetFile (relative env) call = None \<longrightarrow>
          call_kind env callerFile call = Unresolved"
    by (simp add: call_kind_def classify_def)
  from res iff unres show ?thesis
    unfolding left by blast
qed

text \<open>The call \<^verbatim>\<open>b.f()\<close> into \<^verbatim>\<open>src/b.ts\<close>, and the call on a symbol without declarations.\<close>

theorem member_access_fallback_witness:
  "getExpression ex_cross_call = PropertyAccessExpression (Identifier (Some (sym_in ''/w/src/b.ts''))) None
   \<and> spec_leftmost (Identifier (Some (sym_in ''/w/src/b.ts''))) = Identifier (Some (sym_in ''/w/src/b.ts''))
   \<and> resolveCallTargetFile (relative ex_env) ex_cross_call = Some ''src/b.ts''
   \<and> getExpression ex_nodecl_call = PropertyAccessExpression (Identifier (Some (Symbol []))) None
   \<and> spec_leftmost (Identifier (Some (Symbol []))) = Identifier (Some (Symbol []))
   \<and> resolveCallTargetFile (relative ex_env) ex_nodecl_call = None
   \<and> call_kind ex_env ''src/a.ts'' ex_nodecl_call = Unresolved"
proof -
  have a: "getExpression ex_cross_call
      = PropertyAccessExpression (Identifier (Some (sym_in ''/w/src/b.ts''))) None"
    by (simp add: ex_cross_call_def)
  have b: "spec_leftmost (Identifier (Some (sym_in ''/w/src/b.ts'')))
      = Identifier (Some (sym_in ''/w/src/b.ts''))"
    by simp
  have c: "getExpression ex_nodecl_call = PropertyAccessExpression (Identifier (Some (Symbol []))) None"
    by (simp add: ex_nodecl_call_def)
  have d: "spec_leftmost (Identifier (Some (Symbol []))) = Identifier (Some (Symbol []))"
    by simp
  from member_access_fallback [OF a b, of ex_env]
  have 1: "resolveCallTargetFile (relative ex_env) ex_cross_call = Some ''src/b.ts''"
    by (simp add: a sym_in_def isNodeModuleFile_def backslash_def ex_env_def ex_relative_def)
  from member_access_fallback [OF c d, of ex_env "''src/a.ts''"]
  have 2: "resolveCallTargetFile (relative ex_env) ex_nodecl_call = None
      \<and> call_kind ex_env ''src/a.ts'' ex_nodecl_call = Unresolved"
    by (simp add: c)
  from a b c d 1 2 show ?thesis by blast
qed



section \<open>The ranking\<close>

lemma overflow_positive: "0 < OVERFLOW_FROM"
  by (simp add: OVERFLOW_FROM_def)

lemma positive_difference:
  assumes "a \<noteq> NaN" and "b \<noteq> NaN"
  shows "is_positive (js_minus a b) \<longleftrightarrow> order_key b < order_key a"
  using assms overflow_positive
  by (cases a; cases b) (auto simp: js_minus_def is_positive_def order_key_def less_prod_def)

lemma js_le_key:
  assumes "a \<noteq> NaN" and "b \<noteq> NaN"
  shows "js_le a b \<longleftrightarrow> order_key a \<le> order_key b"
  using assms
  by (cases a; cases b) (auto simp: js_le_def order_key_def less_eq_prod_def)

lemma js_eq_key:
  assumes "a \<noteq> NaN" and "b \<noteq> NaN"
  shows "js_eq a b \<longleftrightarrow> order_key a = order_key b"
  using assms by (auto simp: js_eq_def js_le_key)

lemma js_eq_nan: "\<not> js_eq a NaN" "\<not> js_eq NaN a"
  by (simp_all add: js_eq_def js_le_def)

lemma insert_by_insort:
  assumes "s_or_0 x \<noteq> NaN" and "\<forall>y \<in> set ys. s_or_0 y \<noteq> NaN"
  shows "insert_by compare_s x ys = insort_key (\<lambda>m. order_key (s_or_0 m)) x ys"
  using assms
  by (induction ys) (auto simp: compare_s_def positive_difference)

lemma array_sort_sort_key:
  assumes "\<forall>x \<in> set xs. s_or_0 x \<noteq> NaN"
  shows "array_sort compare_s xs = sort_key (\<lambda>m. order_key (s_or_0 m)) xs"
  using assms
proof (induction xs)
  case Nil
  show ?case by (simp add: array_sort_def)
next
  case (Cons x xs)
  then have ih: "array_sort compare_s xs = sort_key (\<lambda>m. order_key (s_or_0 m)) xs"
    by simp
  have "array_sort compare_s (x # xs) = insert_by compare_s x (array_sort compare_s xs)"
    by (simp add: array_sort_def)
  also have "\<dots> = insort_key (\<lambda>m. order_key (s_or_0 m)) x (array_sort compare_s xs)"
    using Cons.prems by (intro insert_by_insort) (simp_all add: set_array_sort)
  finally show ?case by (simp add: ih)
qed

lemma map_insort_key:
  "map g (insort_key (\<lambda>e. f (g e)) x xs) = insort_key f (g x) (map g xs)"
  by (induction xs) auto

lemma map_sort_key_fst:
  "map g (sort_key (\<lambda>e. f (g e)) xs) = sort_key f (map g xs)"
  by (induction xs) (simp_all add: map_insort_key)

lemma keys_object_entries: "map fst (object_entries obj) = entries_order (map fst obj)"
  by (simp add: object_entries_def entries_order_def map_sort_key_fst filter_map comp_def)

lemma keys_accumulate: "map fst (accumulate env sfs) = rev (remdups (rev (map (rel_path env) sfs)))"
  by (simp add: accumulate_def keys_second_pass keys_first_pass keys_init_modulesMap)

lemma files_of_unsorted_metrics:
  "map mm_file (unsorted_metrics env cfg) = entries_order (listing_order env cfg)"
proof -
  have "map mm_file (unsorted_metrics env cfg) =
          map fst (object_entries (accumulate env (project_files env cfg)))"
    by (simp add: unsorted_metrics_def compose_metrics_def Let_def comp_def)
  then show ?thesis
    by (simp add: keys_object_entries keys_accumulate listing_order_def)
qed

lemma distinct_first_occurrences: "distinct xs \<Longrightarrow> rev (remdups (rev xs)) = xs"
  by (simp add: distinct_remdups_id)

lemma entries_order_plain: "\<forall>k \<in> set ks. \<not> is_array_index k \<Longrightarrow> entries_order ks = ks"
  by (simp add: entries_order_def filter_empty_conv)

text \<open>
  Claim C4, amended. Where no module has the sphericity NaN, the sequence of metrics that
  the engine returns is sorted ascending by \<open>S\<close>, non-decreasing for every adjacent pair,
  and the sort is stable: modules with equal \<open>S\<close> keep the order of
  \<^verbatim>\<open>Object.entries(modulesMap)\<close>, which lists the paths that are array indices first, in
  numeric order, and then the other modules in the order in which
  \<^verbatim>\<open>project.getSourceFiles()\<close> lists them. (No module has the path \<^verbatim>\<open>__proto__\<close>, which
  the object would not list.)
\<close>

theorem ranked_ascending_unless_nan:
  assumes "\<forall>m \<in> set (results (analyze env cfg)). mm_s m \<noteq> Some NaN"
    and "\<forall>sf \<in> set (project_files env cfg). rel_path env sf \<noteq> ''__proto__''"
  shows "(\<forall>i. Suc i < length (results (analyze env cfg)) \<longrightarrow>
           js_le (s_or_0 (results (analyze env cfg) ! i))
                 (s_or_0 (results (analyze env cfg) ! Suc i)))
     \<and> (\<forall>m \<in> set (results (analyze env cfg)). mm_s m = Some (s_or_0 m))
     \<and> (\<forall>v. filter (\<lambda>m. js_eq (s_or_0 m) v) (results (analyze env cfg))
              = filter (\<lambda>m. js_eq (s_or_0 m) v) (unsorted_metrics env cfg))
     \<and> map mm_file (unsorted_metrics env cfg) = entries_order (listing_order env cfg)
     \<and> (distinct (map (rel_path env) (project_files env cfg))
          \<and> (\<forall>sf \<in> set (project_files env cfg). \<not> is_array_index (rel_path env sf))
        \<longrightarrow> map mm_file (unsorted_metrics env cfg) = map (rel_path env) (project_files env cfg))"
proof -
  let ?rs = "results (analyze env cfg)"
  let ?us = "unsorted_metrics env cfg"
  let ?key = "\<lambda>m. order_key (s_or_0 m)"
  have some: "\<forall>m \<in> set ?rs. mm_s m = Some (s_or_0 m)"
    by (auto simp: set_results unsorted_metrics_def compose_metrics_def Let_def s_or_0_def)
  with assms(1) have nn: "\<forall>m \<in> set ?rs. s_or_0 m \<noteq> NaN"
    by metis
  then have nn_us: "\<forall>m \<in> set ?us. s_or_0 m \<noteq> NaN"
    by (simp add: set_results)
  then have rs: "?rs = sort_key ?key ?us"
    by (simp add: results_analyze array_sort_sort_key)
  have srt: "sorted (map ?key ?rs)"
    unfolding rs by simp
  have adj: "\<forall>i. Suc i < length ?rs \<longrightarrow> js_le (s_or_0 (?rs ! i)) (s_or_0 (?rs ! Suc i))"
  proof (intro allI impI)
    fix i assume i: "Suc i < length ?rs"
    with srt have "map ?key ?rs ! i \<le> map ?key ?rs ! Suc i"
      by (intro sorted_nth_mono) simp_all
    with i have le: "?key (?rs ! i) \<le> ?key (?rs ! Suc i)" by simp
    from i nn have "s_or_0 (?rs ! i) \<noteq> NaN" "s_or_0 (?rs ! Suc i) \<noteq> NaN"
      by simp_all
    with le show "js_le (s_or_0 (?rs ! i)) (s_or_0 (?rs ! Suc i))"
      by (simp add: js_le_key)
  qed
  have stable: "filter (\<lambda>m. js_eq (s_or_0 m) v) ?rs = filter (\<lambda>m. js_eq (s_or_0 m) v) ?us" for v
  proof (cases "v = NaN")
    case True
    then show ?thesis by (simp add: js_eq_nan)
  next
    case False
    have "filter (\<lambda>m. js_eq (s_or_0 m) v) ?rs = filter (\<lambda>m. ?key m = order_key v) ?rs"
      using nn False by (intro filter_cong) (simp_all add: js_eq_key)
    also have "\<dots> = filter (\<lambda>m. ?key m = order_key v) ?us"
      unfolding rs by (rule sort_key_stable)
    also have "\<dots> = filter (\<lambda>m. js_eq (s_or_0 m) v) ?us"
      using nn_us False by (intro filter_cong) (simp_all add: js_eq_key)
    finally show ?thesis .
  qed
  have order: "map mm_file ?us = entries_order (listing_order env cfg)"
    by (rule files_of_unsorted_metrics)
  have plain: "distinct (map (rel_path env) (project_files env cfg))
          \<and> (\<forall>sf \<in> set (project_files env cfg). \<not> is_array_index (rel_path env sf))
        \<longrightarrow> map mm_file ?us = map (rel_path env) (project_files env cfg)"
    unfolding order listing_order_def
    by (auto simp: distinct_first_occurrences entries_order_plain)
  from adj some stable order plain show ?thesis by blast
qed

lemma pow_epsilon_25: "Math_pow Number_EPSILON 25 = Finite 0"
proof -
  have "(1::real) / 2 ^ 1300 \<le> 1 / 2 ^ 1075"
    by (intro divide_left_mono power_increasing) simp_all
  then have "to_double (1 / 2 ^ 1300) = Finite 0"
    by (simp add: to_double_def UNDERFLOW_UPTO_def OVERFLOW_FROM_def)
  then show ?thesis
    by (simp add: Math_pow_def Number_EPSILON_def power_divide)
qed

lemma ex_steep_files:
  "project_files ex_steep_env ex_steep_cfg =
     [ex_private ''/w/src/p.ts'', ex_private ''/w/src/q.ts'', ex_empty ''/w/src/r.ts'']"
  by (simp add: project_files_def project_held_def ex_steep_env_def ex_plain_env_def
      ex_steep_cfg_def)

lemma ex_steep_accumulate:
  "accumulate ex_steep_env (project_files ex_steep_env ex_steep_cfg) =
     [(''src/p.ts'', ex_acc_private), (''src/q.ts'', ex_acc_private), (''src/r.ts'', zero_entry)]"
  unfolding ex_steep_files
  by (simp add: accumulate_def init_modulesMap_def first_pass_def second_pass_def
      process_file_def collect_def visit_function_def rel_path_def ex_steep_env_def
      ex_plain_env_def ex_relative_def ex_empty_def ex_private_def zero_entry_def Let_def
      regex_test_def outbound_patterns_def match_here_def body_or_empty_def ex_acc_private_def)

lemma ex_steep_unsorted:
  "unsorted_metrics ex_steep_env ex_steep_cfg =
     [ex_metrics_private ''src/p.ts'', ex_metrics_private ''src/q.ts'', ex_metrics_nan ''src/r.ts'']"
  unfolding unsorted_metrics_def ex_steep_accumulate
  by (simp add: object_entries_def no_array_index compose_metrics_def Let_def rawV_of_def
      rawA_of_def cohesion_of_def weights_of_def alpha_of_def ex_steep_cfg_def
      spread_weights_def spread_key_def DEFAULT_WEIGHTS_def no_overrides_def
      ex_acc_private_def zero_entry_def pow_epsilon_25 divide_by_def
      ex_metrics_private_def ex_metrics_nan_def)

lemma ex_steep_results:
  "results (analyze ex_steep_env ex_steep_cfg) =
     [ex_metrics_private ''src/p.ts'', ex_metrics_private ''src/q.ts'', ex_metrics_nan ''src/r.ts'']"
  unfolding results_analyze ex_steep_unsorted
  by (simp add: array_sort_def compare_s_def js_minus_def is_positive_def s_or_0_def
      ex_metrics_private_def ex_metrics_nan_def)

lemma ex_index_results:
  "results (analyze ex_index_env ex_index_cfg) = [ex_metrics_empty ''7'', ex_metrics_empty ''10'']"
proof -
  have f: "project_files ex_index_env ex_index_cfg = [ex_empty ''/w/10'', ex_empty ''/w/7'']"
    by (simp add: project_files_def project_held_def ex_index_env_def ex_plain_env_def
        ex_index_cfg_def)
  have a: "accumulate ex_index_env (project_files ex_index_env ex_index_cfg) =
      [(''10'', zero_entry), (''7'', zero_entry)]"
    unfolding f
    by (simp add: accumulate_def init_modulesMap_def first_pass_def second_pass_def
        process_file_def collect_def rel_path_def ex_index_env_def ex_plain_env_def
        ex_relative_def ex_empty_def zero_entry_def Let_def)
  have i: "is_array_index ''10''" "is_array_index ''7''"
    "decimal_value ''10'' = 10" "decimal_value ''7'' = 7"
    by (simp_all add: is_array_index_def is_digit_def decimal_value_def digit_value_def)
  have u: "unsorted_metrics ex_index_env ex_index_cfg =
      [ex_metrics_empty ''7'', ex_metrics_empty ''10'']"
    unfolding unsorted_metrics_def a
    by (simp add: object_entries_def i compose_metrics_def Let_def rawV_of_def
        rawA_of_def cohesion_of_def weights_of_def alpha_of_def ex_index_cfg_def
        spread_weights_def spread_key_def DEFAULT_WEIGHTS_def no_overrides_def zero_entry_def
        Number_EPSILON_def Math_pow_def divide_by_def to_double_def OVERFLOW_FROM_def
        UNDERFLOW_UPTO_def ex_metrics_empty_def power_divide)
  show ?thesis
    unfolding results_analyze u
    by (simp add: array_sort_def compare_s_def js_minus_def is_positive_def s_or_0_def
        OVERFLOW_FROM_def ex_metrics_empty_def)
qed


text \<open>
  The claim as it is written fails in three ways. With the exponent 25 the power of
  \<^verbatim>\<open>Number.EPSILON\<close> underflows to zero and the engine returns the sphericities
  \<open>Infinity\<close>, \<open>Infinity\<close>, \<open>NaN\<close>, which is no ascending sequence. In the small corpus
  the globs find d before c, yet the tie of c and d comes out as c, d, the order of the
  project's listing. And the tie of the files \<^verbatim>\<open>10\<close> and \<^verbatim>\<open>7\<close> comes out as 7, 10.
\<close>

theorem ranking_counterexample:
  "map mm_file (results (analyze ex_steep_env ex_steep_cfg)) = [''src/p.ts'', ''src/q.ts'', ''src/r.ts'']
   \<and> map s_or_0 (results (analyze ex_steep_env ex_steep_cfg)) = [PosInfinity, PosInfinity, NaN]
   \<and> \<not> js_le PosInfinity NaN
   \<and> enumeration_order ex_env ex_cfg
       = [''src/b.ts'', ''src/d.ts'', ''src/a.ts'', ''src/c.ts'', ''src/gen.ts'']
   \<and> map mm_file (results (analyze ex_env ex_cfg))
       = [''src/c.ts'', ''src/d.ts'', ''src/a.ts'', ''src/b.ts'']
   \<and> map s_or_0 (results (analyze ex_env ex_cfg))
       = [Finite 0, Finite 0, Finite (6 / 625), Finite (2 ^ 104)]
   \<and> enumeration_order ex_index_env ex_index_cfg = [''10'', ''7'']
   \<and> map mm_file (results (analyze ex_index_env ex_index_cfg)) = [''7'', ''10'']
   \<and> map s_or_0 (results (analyze ex_index_env ex_index_cfg)) = [Finite 0, Finite 0]"
  unfolding ex_steep_results ex_results ex_index_results
  by (simp add: s_or_0_def js_le_def enumeration_order_def rel_path_def ex_env_def
      ex_index_env_def ex_plain_env_def ex_relative_def ex_cfg_def ex_index_cfg_def
      ex_a_def ex_empty_def ex_metrics_a_def ex_metrics_b_def ex_metrics_empty_def
      ex_metrics_private_def ex_metrics_nan_def)

text \<open>The small corpus: no sphericity is NaN, and c and d tie at 0 in the order of the listing.\<close>

theorem ranked_ascending_unless_nan_witness:
  "list_all (\<lambda>m. mm_s m \<noteq> Some NaN) (results (analyze ex_env ex_cfg))
   \<and> list_all (\<lambda>sf. rel_path ex_env sf \<noteq> ''__proto__'') (project_files ex_env ex_cfg)
   \<and> map s_or_0 (results (analyze ex_env ex_cfg))
       = [Finite 0, Finite 0, Finite (6 / 625), Finite (2 ^ 104)]
   \<and> js_le (s_or_0 (results (analyze ex_env ex_cfg) ! 1)) (s_or_0 (results (analyze ex_env ex_cfg) ! 2))
   \<and> distinct (map (rel_path ex_env) (project_files ex_env ex_cfg))
   \<and> list_all (\<lambda>sf. \<not> is_array_index (rel_path ex_env sf)) (project_files ex_env ex_cfg)
   \<and> map mm_file (unsorted_metrics ex_env ex_cfg)
       = [''src/a.ts'', ''src/b.ts'', ''src/c.ts'', ''src/d.ts'']
   \<and> map mm_file (filter (\<lambda>m. js_eq (s_or_0 m) (Finite 0)) (results (analyze ex_env ex_cfg)))
       = [''src/c.ts'', ''src/d.ts'']"
proof -
  have nn: "\<forall>m \<in> set (results (analyze ex_env ex_cfg)). mm_s m \<noteq> Some NaN"
    by (simp add: ex_results ex_metrics_a_def ex_metrics_b_def ex_metrics_empty_def)
  have np: "\<forall>sf \<in> set (project_files ex_env ex_cfg). rel_path ex_env sf \<noteq> ''__proto__''"
    unfolding ex_files
    by (simp add: rel_path_def ex_env_def ex_relative_def ex_empty_def ex_a_def)
  note c4 = ranked_ascending_unless_nan [OF nn np]
  have d: "distinct (map (rel_path ex_env) (project_files ex_env ex_cfg))"
    and f: "map (rel_path ex_env) (project_files ex_env ex_cfg)
              = [''src/a.ts'', ''src/b.ts'', ''src/c.ts'', ''src/d.ts'']"
    and n: "\<forall>sf \<in> set (project_files ex_env ex_cfg). \<not> is_array_index (rel_path ex_env sf)"
    unfolding ex_files
    by (simp_all add: rel_path_def ex_env_def ex_relative_def ex_empty_def ex_a_def no_array_index)
  have len: "Suc 1 < length (results (analyze ex_env ex_cfg))"
    by (simp add: ex_results)
  from c4 len have 1: "js_le (s_or_0 (results (analyze ex_env ex_cfg) ! 1))
      (s_or_0 (results (analyze ex_env ex_cfg) ! Suc 1))"
    by blast
  from c4 d n have "map mm_file (unsorted_metrics ex_env ex_cfg)
      = map (rel_path ex_env) (project_files ex_env ex_cfg)"
    by blast
  with f have 2: "map mm_file (unsorted_metrics ex_env ex_cfg)
      = [''src/a.ts'', ''src/b.ts'', ''src/c.ts'', ''src/d.ts'']"
    by simp
  from c4 have "filter (\<lambda>m. js_eq (s_or_0 m) (Finite 0)) (results (analyze ex_env ex_cfg))
      = filter (\<lambda>m. js_eq (s_or_0 m) (Finite 0)) (unsorted_metrics ex_env ex_cfg)"
    by blast
  then have 3: "map mm_file (filter (\<lambda>m. js_eq (s_or_0 m) (Finite 0)) (results (analyze ex_env ex_cfg)))
       = [''src/c.ts'', ''src/d.ts'']"
    by (simp add: ex_unsorted s_or_0_def js_eq_def js_le_def ex_metrics_a_def ex_metrics_b_def
        ex_metrics_empty_def)
  have 5: "map s_or_0 (results (analyze ex_env ex_cfg))
       = [Finite 0, Finite 0, Finite (6 / 625), Finite (2 ^ 104)]"
    by (simp add: ex_results s_or_0_def ex_metrics_a_def ex_metrics_b_def ex_metrics_empty_def)
  from 1 have adj: "js_le (s_or_0 (results (analyze ex_env ex_cfg) ! 1))
      (s_or_0 (results (analyze ex_env ex_cfg) ! 2))"
    by (simp add: numeral_2_eq_2)
  from nn np adj 2 3 5 d n show ?thesis by (simp add: list_all_iff)
qed

section \<open>The sphericity\<close>












section \<open>The tallies of the resolver pass\<close>

lemma second_pass_all_calls: "second_pass env sfs mm = foldl (step env) mm (all_calls env sfs)"
proof -
  have one_file: "foldl (process_call env c) mm cs = foldl (step env) mm (map (\<lambda>call. (c, call)) cs)"
    for c mm cs
    by (induction cs arbitrary: mm) (simp_all add: step_def)
  show ?thesis
    unfolding second_pass_def all_calls_def
    by (induction sfs arbitrary: mm) (simp_all add: process_file_def one_file)
qed

lemma lookup_step:
  assumes "map_of mm k = Some e"
  shows "map_of (step env mm (c, call)) k =
     Some (e\<lparr>callsOut_total := callsOut_total e + (if c = k then 1 else 0),
             callsOut_internal := callsOut_internal e
               + (if c = k \<and> call_kind env c call = SelfInternal then 1 else 0),
             callsOut_external := callsOut_external e
               + (if c = k \<and> in_external_bucket (call_kind env c call) then 1 else 0),
             incomingInternal := incomingInternal e
               + (if call_kind env c call = CrossModule k then 1 else 0)\<rparr>)"
proof (cases "c = k")
  case True
  have "call_kind env k call \<noteq> CrossModule k"
    using cross_not_caller by blast
  then show ?thesis
    using assms True
    by (cases "call_kind env k call")
       (simp_all add: step_def lookup_process_call_caller)
next
  case False
  then show ?thesis
    using assms
    by (simp add: step_def lookup_process_call_other add_incomingInternal_def)
qed


lemma lookup_all_steps:
  assumes "map_of mm k = Some e"
  shows "\<exists>e'. map_of (foldl (step env) mm pairs) k = Some e'
     \<and> callsOut_total e' = callsOut_total e + length (filter (\<lambda>p. fst p = k) pairs)
     \<and> callsOut_internal e' = callsOut_internal e
         + length (filter (\<lambda>p. fst p = k \<and> call_kind env (fst p) (snd p) = SelfInternal) pairs)
     \<and> callsOut_external e' = callsOut_external e
         + length (filter (\<lambda>p. fst p = k \<and> in_external_bucket (call_kind env (fst p) (snd p))) pairs)
     \<and> incomingInternal e' = incomingInternal e
         + length (filter (\<lambda>p. call_kind env (fst p) (snd p) = CrossModule k) pairs)"
  using assms
proof (induction pairs arbitrary: mm e)
  case Nil
  then show ?case by simp
next
  case (Cons p pairs)
  obtain c call where p: "p = (c, call)" by (cases p)
  from Cons.prems obtain e1 where e1: "map_of (step env mm (c, call)) k = Some e1"
    and f: "callsOut_total e1 = callsOut_total e + (if c = k then 1 else 0)"
      "callsOut_internal e1 = callsOut_internal e
         + (if c = k \<and> call_kind env c call = SelfInternal then 1 else 0)"
      "callsOut_external e1 = callsOut_external e
         + (if c = k \<and> in_external_bucket (call_kind env c call) then 1 else 0)"
      "incomingInternal e1 = incomingInternal e
         + (if call_kind env c call = CrossModule k then 1 else 0)"
    by (simp add: lookup_step)
  from Cons.IH [OF e1] show ?case
    by (auto simp: p f)
qed

lemma calls_of_a_file:
  assumes "sf \<in> set sfs" and "distinct (map (rel_path env) sfs)"
  shows "filter (\<lambda>p. fst p = rel_path env sf \<and> Q (snd p)) (all_calls env sfs) =
           map (\<lambda>call. (rel_path env sf, call)) (filter Q (sf_calls sf))"
  using assms
proof (induction sfs)
  case Nil
  then show ?case by simp
next
  case (Cons x xs)
  have none: "filter (\<lambda>p. fst p = k \<and> Q (snd p)) (all_calls env ys) = []"
    if "k \<notin> rel_path env ` set ys" for k ys
    using that by (induction ys) (auto simp: all_calls_def filter_empty_conv)
  have own: "filter (\<lambda>p. fst p = rel_path env y \<and> Q (snd p)) (map (\<lambda>call. (rel_path env y, call)) cs)
      = map (\<lambda>call. (rel_path env y, call)) (filter Q cs)" for y cs
    by (induction cs) simp_all
  have other: "filter (\<lambda>p. fst p = k \<and> Q (snd p)) (map (\<lambda>call. (rel_path env y, call)) cs) = []"
    if "k \<noteq> rel_path env y" for k y cs
    using that by (induction cs) simp_all
  have split: "all_calls env (x # xs) = map (\<lambda>call. (rel_path env x, call)) (sf_calls x) @ all_calls env xs"
    by (simp add: all_calls_def)
  show ?case
  proof (cases "sf = x")
    case True
    with Cons.prems have "rel_path env sf \<notin> rel_path env ` set xs" by auto
    then show ?thesis
      unfolding split by (simp add: none True own)
  next
    case False
    with Cons.prems have in_xs: "sf \<in> set xs" and d: "distinct (map (rel_path env) xs)"
      and nin: "rel_path env x \<notin> rel_path env ` set xs"
      by auto
    from in_xs have "rel_path env sf \<in> rel_path env ` set xs" by (rule imageI)
    with nin have ne: "rel_path env sf \<noteq> rel_path env x" by metis
    show ?thesis
      unfolding split by (simp add: other [OF ne] Cons.IH [OF in_xs d])
  qed
qed

lemma collect_frame:
  "callsOut_total (collect sf m) = callsOut_total m"
  "callsOut_internal (collect sf m) = callsOut_internal m"
  "callsOut_external (collect sf m) = callsOut_external m"
  "incomingInternal (collect sf m) = incomingInternal m"
proof -
  have methods: "callsOut_total (foldl visit_method a ms) = callsOut_total a
      \<and> callsOut_internal (foldl visit_method a ms) = callsOut_internal a
      \<and> callsOut_external (foldl visit_method a ms) = callsOut_external a
      \<and> incomingInternal (foldl visit_method a ms) = incomingInternal a" for a ms
    by (induction ms arbitrary: a) (simp_all add: visit_method_frame)
  have classes: "callsOut_total (foldl visit_class a cs) = callsOut_total a
      \<and> callsOut_internal (foldl visit_class a cs) = callsOut_internal a
      \<and> callsOut_external (foldl visit_class a cs) = callsOut_external a
      \<and> incomingInternal (foldl visit_class a cs) = incomingInternal a" for a cs
    by (induction cs arbitrary: a) (simp_all add: visit_class_def Let_def methods)
  have funs: "callsOut_total (foldl visit_function a fs) = callsOut_total a
      \<and> callsOut_internal (foldl visit_function a fs) = callsOut_internal a
      \<and> callsOut_external (foldl visit_function a fs) = callsOut_external a
      \<and> incomingInternal (foldl visit_function a fs) = incomingInternal a" for a fs
    by (induction fs arbitrary: a) (simp_all add: visit_function_def Let_def)
  show "callsOut_total (collect sf m) = callsOut_total m"
    "callsOut_internal (collect sf m) = callsOut_internal m"
    "callsOut_external (collect sf m) = callsOut_external m"
    "incomingInternal (collect sf m) = incomingInternal m"
    by (simp_all add: collect_def Let_def funs classes)
qed

lemma tally_of_accumulate:
  assumes "sf \<in> set sfs" and "distinct (map (rel_path env) sfs)"
  shows "\<exists>e. map_of (accumulate env sfs) (rel_path env sf) = Some e
     \<and> callsOut_total e = length (sf_calls sf)
     \<and> callsOut_external e =
         length (filter (\<lambda>call. in_external_bucket (call_kind env (rel_path env sf) call)) (sf_calls sf))
     \<and> callsOut_internal e =
         length (filter (\<lambda>call. call_kind env (rel_path env sf) call = SelfInternal) (sf_calls sf))
     \<and> incomingInternal e =
         length (filter (\<lambda>p. call_kind env (fst p) (snd p) = CrossModule (rel_path env sf))
                   (all_calls env sfs))"
proof -
  let ?k = "rel_path env sf"
  let ?e0 = "collect sf zero_entry"
  have first: "map_of (first_pass env sfs (init_modulesMap env sfs)) ?k = Some ?e0"
    using assms by (simp add: lookup_first_pass lookup_init_modulesMap)
  have zero: "callsOut_total ?e0 = 0" "callsOut_internal ?e0 = 0" "callsOut_external ?e0 = 0"
    "incomingInternal ?e0 = 0"
    by (simp_all add: collect_frame zero_entry_def)
  have total: "length (filter (\<lambda>p. fst p = ?k) (all_calls env sfs)) = length (sf_calls sf)"
    using calls_of_a_file [OF assms, of "\<lambda>call. True"] by simp
  have ext: "length (filter (\<lambda>p. fst p = ?k \<and> in_external_bucket (call_kind env (fst p) (snd p)))
                (all_calls env sfs))
      = length (filter (\<lambda>call. in_external_bucket (call_kind env ?k call)) (sf_calls sf))"
  proof -
    have "filter (\<lambda>p. fst p = ?k \<and> in_external_bucket (call_kind env (fst p) (snd p))) (all_calls env sfs)
        = filter (\<lambda>p. fst p = ?k \<and> in_external_bucket (call_kind env ?k (snd p))) (all_calls env sfs)"
      by (intro filter_cong) auto
    then show ?thesis
      using calls_of_a_file [OF assms, of "\<lambda>call. in_external_bucket (call_kind env ?k call)"]
      by simp
  qed
  have int: "length (filter (\<lambda>p. fst p = ?k \<and> call_kind env (fst p) (snd p) = SelfInternal)
                (all_calls env sfs))
      = length (filter (\<lambda>call. call_kind env ?k call = SelfInternal) (sf_calls sf))"
  proof -
    have "filter (\<lambda>p. fst p = ?k \<and> call_kind env (fst p) (snd p) = SelfInternal) (all_calls env sfs)
        = filter (\<lambda>p. fst p = ?k \<and> call_kind env ?k (snd p) = SelfInternal) (all_calls env sfs)"
      by (intro filter_cong) auto
    then show ?thesis
      using calls_of_a_file [OF assms, of "\<lambda>call. call_kind env ?k call = SelfInternal"]
      by simp
  qed
  from lookup_all_steps [OF first, of env "all_calls env sfs"] show ?thesis
    unfolding accumulate_def second_pass_all_calls
    by (auto simp: zero total ext int)
qed

text \<open>One call on any map in which the caller has an entry.\<close>

lemma step_of_a_call:
  assumes "map_of mm callerFile = Some e"
  shows "\<exists>e'. map_of (process_call env callerFile mm call) callerFile = Some e'
     \<and> callsOut_total e' = callsOut_total e + 1
     \<and> (call_kind env callerFile call = TrueExternal \<or> call_kind env callerFile call = Unresolved
          \<or> (\<exists>t. call_kind env callerFile call = CrossModule t)
        \<longrightarrow> callsOut_external e' = callsOut_external e + 1)
     \<and> (call_kind env callerFile call = SelfInternal
        \<longrightarrow> callsOut_external e' = callsOut_external e)
     \<and> (\<forall>t et. call_kind env callerFile call = CrossModule t \<and> map_of mm t = Some et \<longrightarrow>
          (\<exists>et'. map_of (process_call env callerFile mm call) t = Some et'
             \<and> incomingInternal et' = incomingInternal et + 1))
     \<and> (\<forall>t. call_kind env callerFile call = CrossModule t \<and> map_of mm t = None \<longrightarrow>
          (\<forall>k. map_option incomingInternal (map_of (process_call env callerFile mm call) k)
                 = map_option incomingInternal (map_of mm k)
              \<and> map_option incomingExternal (map_of (process_call env callerFile mm call) k)
                 = map_option incomingExternal (map_of mm k)))"
proof -
  let ?mm' = "process_call env callerFile mm call"
  let ?kind = "call_kind env callerFile call"
  have caller: "map_of ?mm' callerFile =
     Some (case ?kind of
             SelfInternal \<Rightarrow> e\<lparr>callsOut_total := callsOut_total e + 1,
                                callsOut_internal := callsOut_internal e + 1\<rparr>
           | _ \<Rightarrow> e\<lparr>callsOut_total := callsOut_total e + 1,
                     callsOut_external := callsOut_external e + 1\<rparr>)"
    using assms by (rule lookup_process_call_caller)
  have tracked: "\<exists>et'. map_of ?mm' t = Some et' \<and> incomingInternal et' = incomingInternal et + 1"
    if "?kind = CrossModule t" "map_of mm t = Some et" for t et
  proof -
    from that(1) have "t \<noteq> callerFile" by (rule cross_not_caller)
    then show ?thesis
      using that by (simp add: lookup_process_call_other add_incomingInternal_def)
  qed
  have dropped: "map_option incomingInternal (map_of ?mm' k) = map_option incomingInternal (map_of mm k)
      \<and> map_option incomingExternal (map_of ?mm' k) = map_option incomingExternal (map_of mm k)"
    if "?kind = CrossModule t" "map_of mm t = None" for t k
  proof (cases "k = callerFile")
    case True
    with caller assms that show ?thesis by simp
  next
    case False
    with that show ?thesis by (auto simp: lookup_process_call_other)
  qed
  from caller tracked dropped show ?thesis
    by (auto split: CallKind.splits)
qed


lemma listed_not_excluded:
  assumes "lists_what_it_holds env" and "cfg_exclude cfg = Some ex"
    and "sf \<in> set (project_files env cfg)"
  shows "\<not> is_excluded env ex sf"
proof (cases "ex = []")
  case True
  then show ?thesis by (simp add: is_excluded_def)
next
  case False
  let ?project = "addSourceFilesAtPaths env
      (case cfg_include cfg of None \<Rightarrow> [''src/**/*.ts''] | Some i \<Rightarrow> i)"
  let ?toRemove = "filter (is_excluded env ex) (getSourceFiles env ?project)"
  from assms(1) have lists: "set (getSourceFiles env held) = set held" for held
    by (simp add: lists_what_it_holds_def)
  have held: "project_held env cfg = filter (\<lambda>sf. sf \<notin> set ?toRemove) ?project"
    using assms(2) False by (simp add: project_held_def Let_def)
  from assms(3) have "sf \<in> set (project_held env cfg)"
    by (simp add: project_files_def lists)
  then have "sf \<in> set ?project" and "sf \<notin> set ?toRemove"
    by (simp_all add: held)
  then show ?thesis
    by (simp add: lists)
qed

lemma excluded_is_no_key:
  assumes "lists_what_it_holds env" and "cfg_exclude cfg = Some ex"
    and "pattern \<in> set ex" and "minimatch env t pattern"
  shows "map_of (accumulate env (project_files env cfg)) t = None"
proof -
  have "t \<notin> rel_path env ` set (project_files env cfg)"
  proof
    assume "t \<in> rel_path env ` set (project_files env cfg)"
    then obtain sf where sf: "sf \<in> set (project_files env cfg)" and t: "t = rel_path env sf"
      by blast
    from assms(1,2) sf have "\<not> is_excluded env ex sf" by (rule listed_not_excluded)
    with assms(3,4) show False
      by (auto simp: is_excluded_def list_ex_iff t)
  qed
  then have "t \<notin> set (map fst (accumulate env (project_files env cfg)))"
    by (simp add: keys_accumulate)
  then show ?thesis
    by (simp add: map_of_eq_None_iff)
qed

lemma extras_of_result:
  assumes "m \<in> set (results (analyze env cfg))"
  shows "map_of (accumulate env (project_files env cfg)) (mm_file m) = Some (mm_extras m)"
proof -
  from assms obtain entry where e: "entry \<in> set (accumulate env (project_files env cfg))"
    and m: "m = compose_metrics (weights_of cfg) (alpha_of cfg) entry"
    by (rule results_composed)
  from e have "(mm_file m, mm_extras m) \<in> set (accumulate env (project_files env cfg))"
    by (simp add: m compose_metrics_fields)
  moreover have "distinct (map fst (accumulate env (project_files env cfg)))"
    by (simp add: keys_accumulate)
  ultimately show ?thesis by simp
qed

text \<open>
  Claim C5. After the resolver pass over the project, the \<open>callsOut_total\<close> of a module is
  the number of its call expressions, and its \<open>callsOut_external\<close> the number of those
  that are cross-module, true-external or unresolved; its \<open>incomingInternal\<close> is the
  number of cross-module calls of the project that target it. A path that matches an
  exclude pattern is no key of the accumulators and no module of the result, so that a
  call to it is counted in no incoming counter. Each single call adds these amounts: 1 to
  the total of the caller, 1 to its external counter in the three cases, 1 to
  \<open>incomingInternal\<close> of a tracked target, and nothing to any incoming counter where the
  target is not tracked.
\<close>

theorem tally_of_the_resolver_pass:
  assumes "sf \<in> set (project_files env cfg)"
    and "distinct (map (rel_path env) (project_files env cfg))"
    and "lists_what_it_holds env"
  shows "(\<exists>e. map_of (accumulate env (project_files env cfg)) (rel_path env sf) = Some e
        \<and> callsOut_total e = length (sf_calls sf)
        \<and> callsOut_external e =
            length (filter (\<lambda>call. in_external_bucket (call_kind env (rel_path env sf) call))
                      (sf_calls sf))
        \<and> callsOut_internal e =
            length (filter (\<lambda>call. call_kind env (rel_path env sf) call = SelfInternal) (sf_calls sf))
        \<and> incomingInternal e =
            length (filter (\<lambda>p. call_kind env (fst p) (snd p) = CrossModule (rel_path env sf))
                      (all_calls env (project_files env cfg)))
        \<and> (\<forall>m \<in> set (results (analyze env cfg)).
              mm_file m = rel_path env sf \<longrightarrow> mm_extras m = e))
     \<and> (\<forall>ex pattern t. cfg_exclude cfg = Some ex \<and> pattern \<in> set ex \<and> minimatch env t pattern \<longrightarrow>
          map_of (accumulate env (project_files env cfg)) t = None
          \<and> (\<forall>m \<in> set (results (analyze env cfg)). mm_file m \<noteq> t))
     \<and> (\<forall>mm callerFile call e0. map_of mm callerFile = Some e0 \<longrightarrow>
          (\<exists>e'. map_of (process_call env callerFile mm call) callerFile = Some e'
             \<and> callsOut_total e' = callsOut_total e0 + 1
             \<and> (in_external_bucket (call_kind env callerFile call)
                \<longrightarrow> callsOut_external e' = callsOut_external e0 + 1)
             \<and> (call_kind env callerFile call = SelfInternal
                \<longrightarrow> callsOut_external e' = callsOut_external e0)
             \<and> (\<forall>t et. call_kind env callerFile call = CrossModule t \<and> map_of mm t = Some et \<longrightarrow>
                  (\<exists>et'. map_of (process_call env callerFile mm call) t = Some et'
                     \<and> incomingInternal et' = incomingInternal et + 1))
             \<and> (\<forall>t. call_kind env callerFile call = CrossModule t \<and> map_of mm t = None \<longrightarrow>
                  (\<forall>k. map_option incomingInternal (map_of (process_call env callerFile mm call) k)
                         = map_option incomingInternal (map_of mm k)
                      \<and> map_option incomingExternal (map_of (process_call env callerFile mm call) k)
                         = map_option incomingExternal (map_of mm k)))))"
proof (intro conjI)
  from tally_of_accumulate [OF assms(1,2)] obtain e
    where e: "map_of (accumulate env (project_files env cfg)) (rel_path env sf) = Some e"
      and f: "callsOut_total e = length (sf_calls sf)"
        "callsOut_external e =
            length (filter (\<lambda>call. in_external_bucket (call_kind env (rel_path env sf) call))
                      (sf_calls sf))"
        "callsOut_internal e =
            length (filter (\<lambda>call. call_kind env (rel_path env sf) call = SelfInternal) (sf_calls sf))"
        "incomingInternal e =
            length (filter (\<lambda>p. call_kind env (fst p) (snd p) = CrossModule (rel_path env sf))
                      (all_calls env (project_files env cfg)))"
    by blast
  have "mm_extras m = e"
    if "m \<in> set (results (analyze env cfg))" "mm_file m = rel_path env sf" for m
    using extras_of_result [OF that(1)] e that(2) by simp
  with e f show "\<exists>e. map_of (accumulate env (project_files env cfg)) (rel_path env sf) = Some e
        \<and> callsOut_total e = length (sf_calls sf)
        \<and> callsOut_external e =
            length (filter (\<lambda>call. in_external_bucket (call_kind env (rel_path env sf) call))
                      (sf_calls sf))
        \<and> callsOut_internal e =
            length (filter (\<lambda>call. call_kind env (rel_path env sf) call = SelfInternal) (sf_calls sf))
        \<and> incomingInternal e =
            length (filter (\<lambda>p. call_kind env (fst p) (snd p) = CrossModule (rel_path env sf))
                      (all_calls env (project_files env cfg)))
        \<and> (\<forall>m \<in> set (results (analyze env cfg)).
              mm_file m = rel_path env sf \<longrightarrow> mm_extras m = e)"
    by blast
next
  show "\<forall>ex pattern t. cfg_exclude cfg = Some ex \<and> pattern \<in> set ex \<and> minimatch env t pattern \<longrightarrow>
          map_of (accumulate env (project_files env cfg)) t = None
          \<and> (\<forall>m \<in> set (results (analyze env cfg)). mm_file m \<noteq> t)"
  proof (intro allI impI)
    fix ex pattern t
    assume h: "cfg_exclude cfg = Some ex \<and> pattern \<in> set ex \<and> minimatch env t pattern"
    with assms(3) have none: "map_of (accumulate env (project_files env cfg)) t = None"
      by (blast intro: excluded_is_no_key)
    have "mm_file m \<noteq> t" if "m \<in> set (results (analyze env cfg))" for m
      using extras_of_result [OF that] none by auto
    with none show "map_of (accumulate env (project_files env cfg)) t = None
          \<and> (\<forall>m \<in> set (results (analyze env cfg)). mm_file m \<noteq> t)"
      by blast
  qed
next
  show "\<forall>mm callerFile call e0. map_of mm callerFile = Some e0 \<longrightarrow>
          (\<exists>e'. map_of (process_call env callerFile mm call) callerFile = Some e'
             \<and> callsOut_total e' = callsOut_total e0 + 1
             \<and> (in_external_bucket (call_kind env callerFile call)
                \<longrightarrow> callsOut_external e' = callsOut_external e0 + 1)
             \<and> (call_kind env callerFile call = SelfInternal
                \<longrightarrow> callsOut_external e' = callsOut_external e0)
             \<and> (\<forall>t et. call_kind env callerFile call = CrossModule t \<and> map_of mm t = Some et \<longrightarrow>
                  (\<exists>et'. map_of (process_call env callerFile mm call) t = Some et'
                     \<and> incomingInternal et' = incomingInternal et + 1))
             \<and> (\<forall>t. call_kind env callerFile call = CrossModule t \<and> map_of mm t = None \<longrightarrow>
                  (\<forall>k. map_option incomingInternal (map_of (process_call env callerFile mm call) k)
                         = map_option incomingInternal (map_of mm k)
                      \<and> map_option incomingExternal (map_of (process_call env callerFile mm call) k)
                         = map_option incomingExternal (map_of mm k))))"
  proof (intro allI impI)
    fix mm :: ModulesMap and callerFile :: string and call :: CallExpression and e0 :: Accumulator
    assume "map_of mm callerFile = Some e0"
    from step_of_a_call [OF this, of env call]
    show "\<exists>e'. map_of (process_call env callerFile mm call) callerFile = Some e'
             \<and> callsOut_total e' = callsOut_total e0 + 1
             \<and> (in_external_bucket (call_kind env callerFile call)
                \<longrightarrow> callsOut_external e' = callsOut_external e0 + 1)
             \<and> (call_kind env callerFile call = SelfInternal
                \<longrightarrow> callsOut_external e' = callsOut_external e0)
             \<and> (\<forall>t et. call_kind env callerFile call = CrossModule t \<and> map_of mm t = Some et \<longrightarrow>
                  (\<exists>et'. map_of (process_call env callerFile mm call) t = Some et'
                     \<and> incomingInternal et' = incomingInternal et + 1))
             \<and> (\<forall>t. call_kind env callerFile call = CrossModule t \<and> map_of mm t = None \<longrightarrow>
                  (\<forall>k. map_option incomingInternal (map_of (process_call env callerFile mm call) k)
                         = map_option incomingInternal (map_of mm k)
                      \<and> map_option incomingExternal (map_of (process_call env callerFile mm call) k)
                         = map_option incomingExternal (map_of mm k)))"
      by (cases "call_kind env callerFile call") auto
  qed
qed

lemma ex_env_lists: "lists_what_it_holds ex_env"
  by (simp add: lists_what_it_holds_def ex_env_def)

text \<open>
  The small corpus: the five calls of a, the one call into b, and the excluded
  \<^verbatim>\<open>src/gen.ts\<close>.
\<close>

theorem tally_of_the_resolver_pass_witness:
  "ex_a \<in> set (project_files ex_env ex_cfg)
   \<and> ex_empty ''/w/src/b.ts'' \<in> set (project_files ex_env ex_cfg)
   \<and> distinct (map (rel_path ex_env) (project_files ex_env ex_cfg))
   \<and> lists_what_it_holds ex_env
   \<and> (\<exists>e. map_of (accumulate ex_env (project_files ex_env ex_cfg)) ''src/a.ts'' = Some e
         \<and> callsOut_total e = 5 \<and> callsOut_external e = 4 \<and> callsOut_internal e = 1
         \<and> incomingInternal e = 0)
   \<and> (\<exists>e. map_of (accumulate ex_env (project_files ex_env ex_cfg)) ''src/b.ts'' = Some e
         \<and> callsOut_total e = 0 \<and> incomingInternal e = 1)
   \<and> cfg_exclude ex_cfg = Some [''src/gen.ts'']
   \<and> minimatch ex_env ''src/gen.ts'' ''src/gen.ts''
   \<and> call_kind ex_env ''src/a.ts'' ex_excluded_call = CrossModule ''src/gen.ts''
   \<and> map_of (accumulate ex_env (project_files ex_env ex_cfg)) ''src/gen.ts'' = None"
proof -
  have a: "ex_a \<in> set (project_files ex_env ex_cfg)"
    and b: "ex_empty ''/w/src/b.ts'' \<in> set (project_files ex_env ex_cfg)"
    by (simp_all add: ex_files)
  have d: "distinct (map (rel_path ex_env) (project_files ex_env ex_cfg))"
    unfolding ex_files
    by (simp add: rel_path_def ex_env_def ex_relative_def ex_empty_def ex_a_def)
  note l = ex_env_lists
  have ra: "rel_path ex_env ex_a = ''src/a.ts''"
    and rb: "rel_path ex_env (ex_empty ''/w/src/b.ts'') = ''src/b.ts''"
    by (simp_all add: rel_path_def ex_env_def ex_relative_def ex_a_def ex_empty_def)
  have calls: "sf_calls ex_a =
      [ex_self_call, ex_cross_call, ex_external_call, ex_unresolved_call, ex_excluded_call]"
    "sf_calls (ex_empty ''/w/src/b.ts'') = []"
    by (simp_all add: ex_a_def ex_empty_def)
  have all: "all_calls ex_env (project_files ex_env ex_cfg) =
      [(''src/a.ts'', ex_self_call), (''src/a.ts'', ex_cross_call), (''src/a.ts'', ex_external_call),
       (''src/a.ts'', ex_unresolved_call), (''src/a.ts'', ex_excluded_call)]"
    unfolding ex_files all_calls_def
    by (simp add: rel_path_def ex_env_def ex_relative_def ex_a_def ex_empty_def)
  note pass_a = tally_of_the_resolver_pass [OF a d l]
  note pass_b = tally_of_the_resolver_pass [OF b d l]
  from pass_a [THEN conjunct1] obtain ea
    where ea: "map_of (accumulate ex_env (project_files ex_env ex_cfg)) ''src/a.ts'' = Some ea"
      and fa: "callsOut_total ea = length (sf_calls ex_a)"
        "callsOut_external ea =
           length (filter (\<lambda>call. in_external_bucket (call_kind ex_env ''src/a.ts'' call)) (sf_calls ex_a))"
        "callsOut_internal ea =
           length (filter (\<lambda>call. call_kind ex_env ''src/a.ts'' call = SelfInternal) (sf_calls ex_a))"
        "incomingInternal ea =
           length (filter (\<lambda>p. call_kind ex_env (fst p) (snd p) = CrossModule ''src/a.ts'')
                     (all_calls ex_env (project_files ex_env ex_cfg)))"
    unfolding ra by blast
  have ta: "\<exists>e. map_of (accumulate ex_env (project_files ex_env ex_cfg)) ''src/a.ts'' = Some e
         \<and> callsOut_total e = 5 \<and> callsOut_external e = 4 \<and> callsOut_internal e = 1
         \<and> incomingInternal e = 0"
    using ea fa unfolding calls all by (simp add: ex_kinds)
  from pass_b [THEN conjunct1] obtain eb
    where eb: "map_of (accumulate ex_env (project_files ex_env ex_cfg)) ''src/b.ts'' = Some eb"
      and fb: "callsOut_total eb = length (sf_calls (ex_empty ''/w/src/b.ts''))"
        "incomingInternal eb =
           length (filter (\<lambda>p. call_kind ex_env (fst p) (snd p) = CrossModule ''src/b.ts'')
                     (all_calls ex_env (project_files ex_env ex_cfg)))"
    unfolding rb by blast
  have tb: "\<exists>e. map_of (accumulate ex_env (project_files ex_env ex_cfg)) ''src/b.ts'' = Some e
         \<and> callsOut_total e = 0 \<and> incomingInternal e = 1"
    using eb fb unfolding calls all by (simp add: ex_kinds)
  have ex: "cfg_exclude ex_cfg = Some [''src/gen.ts'']"
    and mt: "minimatch ex_env ''src/gen.ts'' ''src/gen.ts''"
    by (simp_all add: ex_cfg_def ex_env_def)
  have inpat: "''src/gen.ts'' \<in> set [''src/gen.ts'']" by simp
  from pass_a [THEN conjunct2, THEN conjunct1, rule_format, of "[''src/gen.ts'']" "''src/gen.ts''" "''src/gen.ts''"]
    ex mt inpat
  have gone: "map_of (accumulate ex_env (project_files ex_env ex_cfg)) ''src/gen.ts'' = None"
    by blast
  from a b d l ta tb ex mt gone ex_kinds(5) show ?thesis by blast
qed

end
